theory Spec2Isabelle
  imports Main
begin

section \<open>Scoped rendering with ShadyCSS: \<open>src/lib/shady-render.ts\<close>\<close>

text \<open>
  The module keeps a cache of compiled templates per scope, takes the style elements out of
  a template the first time a scope is rendered (rewriting the indices of the template's
  parts), puts one style back when the polyfill runs on native Shadow DOM, and then calls
  the renderer of lit-html. The embedding below follows the file function by function.
\<close>

subsection \<open>The DOM, as far as the module looks at it\<close>

text \<open>
  A node is an element with a local name and child nodes, a text node or a comment. These
  are the three kinds the tree walker of the module is asked to show.
\<close>

datatype node = Element string "node list" | Text string | Comment string

text \<open>\<open>node.localName\<close>: only an element has one.\<close>

fun localName :: "node \<Rightarrow> string option" where
  "localName (Element nm cs) = Some nm"
| "localName (Text s) = None"
| "localName (Comment s) = None"

text \<open>\<open>node.childNodes\<close>.\<close>

fun childNodes :: "node \<Rightarrow> node list" where
  "childNodes (Element nm cs) = cs"
| "childNodes (Text s) = []"
| "childNodes (Comment s) = []"

text \<open>
  \<open>document.createTreeWalker(content, SHOW_ELEMENT | SHOW_COMMENT | SHOW_TEXT)\<close> followed by
  \<open>nextNode()\<close> until it returns null visits the descendants of \<open>content\<close> in document
  order, as long as nothing is removed under the walker. \<open>treeWalker\<close> is that sequence for
  the children of \<open>content\<close>; the place of a node in it is its document-order position.
\<close>

fun treeWalker :: "node list \<Rightarrow> node list" where
  "treeWalker [] = []"
| "treeWalker (Element nm cs # ns) = Element nm cs # treeWalker cs @ treeWalker ns"
| "treeWalker (Text s # ns) = Text s # treeWalker ns"
| "treeWalker (Comment s # ns) = Comment s # treeWalker ns"

text \<open>
  \<open>n.parentNode.removeChild(n)\<close> for the nodes at the document-order positions \<open>rm\<close>;
  \<open>i\<close> is the position of the first node of the list. A removed element takes its subtree
  with it.
\<close>

fun removeNodes :: "nat list \<Rightarrow> nat \<Rightarrow> node list \<Rightarrow> node list" where
  "removeNodes rm i [] = []"
| "removeNodes rm i (Element nm cs # ns) =
     (if i \<in> set rm then [] else [Element nm (removeNodes rm (i + 1) cs)])
       @ removeNodes rm (i + 1 + length (treeWalker cs)) ns"
| "removeNodes rm i (Text s # ns) =
     (if i \<in> set rm then [] else [Text s]) @ removeNodes rm (i + 1) ns"
| "removeNodes rm i (Comment s # ns) =
     (if i \<in> set rm then [] else [Comment s]) @ removeNodes rm (i + 1) ns"

text \<open>
  A node that has been removed from its parent, and every node below it, is in a tree of
  its own, detached from the content. \<open>roots rm up i ns\<close> gives, for every node of \<open>ns\<close> in
  document order, the root of the tree it is in: the nearest of the node and its ancestors
  that is among the removed positions \<open>rm\<close>, or else \<open>up\<close>, the root of the parent. \<open>None\<close>
  stands for the content itself.
\<close>

fun roots :: "nat list \<Rightarrow> nat option \<Rightarrow> nat \<Rightarrow> node list \<Rightarrow> nat option list" where
  "roots rm up i [] = []"
| "roots rm up i (Element nm cs # ns) =
     (if i \<in> set rm then Some i else up)
       # roots rm (if i \<in> set rm then Some i else up) (i + 1) cs
       @ roots rm up (i + 1 + length (treeWalker cs)) ns"
| "roots rm up i (Text s # ns) =
     (if i \<in> set rm then Some i else up) # roots rm up (i + 1) ns"
| "roots rm up i (Comment s # ns) =
     (if i \<in> set rm then Some i else up) # roots rm up (i + 1) ns"

subsection \<open>Template results, templates and parts\<close>

text \<open>
  A \<open>TemplateResult\<close> has a type (\<open>html\<close> or \<open>svg\<close>), its strings array and its values.
  The module uses the strings array as a key only, by identity, so it is a number here.
  A value is whatever JavaScript value stands in the template; the cases are the ones
  \<open>extractStylesFromValue\<close> tells apart: null and undefined, the primitives, a nested
  result, an array, another iterable object, any other object.
\<close>

datatype templateResult =
  TemplateResult (type: string) (strings: nat) (values_of: "jsvalue list")
and jsvalue =
    VNull
  | VUndefined
  | VNumber int
  | VBoolean bool
  | VString string
  | VResult templateResult
  | VArray "jsvalue list"
  | VIterable "jsvalue list"
  | VObject

text \<open>A \<open>TemplatePart\<close>; the module reads and writes its \<open>index\<close> only.\<close>

record templatePart =
  index :: int

text \<open>
  A \<open>Template\<close>: its template element and its parts. The loop of
  \<open>extractStylesFromTemplate\<close> holds on to nodes of the element while nested calls may
  remove nodes from it, so a node needs an identity that outlives a removal: \<open>nodes\<close> are
  the children of \<open>element.content\<close> with every node that has been removed still in its
  place, and \<open>removed\<close> are the document-order positions, in \<open>nodes\<close>, of the nodes that
  have been removed from their parent. The position of a node in \<open>nodes\<close> is its identity.
\<close>

record template =
  nodes :: "node list"
  removed :: "nat list"
  parts :: "templatePart list"

text \<open>\<open>element.content\<close> as it is now: the nodes without the removed ones.\<close>

definition content :: "template \<Rightarrow> node list" where
  "content t = removeNodes (removed t) 0 (nodes t)"

text \<open>
  \<open>node.getRootNode()\<close> for the node at position \<open>q\<close>: \<open>None\<close> when the node is in the
  content, the position of the removed node it hangs under otherwise.
\<close>

definition rootNode :: "template \<Rightarrow> nat \<Rightarrow> nat option" where
  "rootNode t q =
     (if q < length (treeWalker (nodes t)) then roots (removed t) None 0 (nodes t) ! q
      else None)"

text \<open>The node at position \<open>q\<close> as it is now, with the children it still has.\<close>

definition nodeAt :: "template \<Rightarrow> nat \<Rightarrow> node" where
  "nodeAt t q =
     (case treeWalker (nodes t) ! q of
        Element nm cs \<Rightarrow> Element nm (removeNodes (removed t) (q + 1) cs)
      | Text s \<Rightarrow> Text s
      | Comment s \<Rightarrow> Comment s)"

text \<open>
  \<open>walker.nextNode()\<close> moves to the next node, in document order, of the tree the
  current node is in, and returns null when there is none; the walker starts on the
  content. So, going through the positions in order, the walker on \<open>current\<close> (\<open>None\<close> for
  the content) visits position \<open>q\<close> when the node there is in the same tree.
\<close>

definition walkerRoot :: "template \<Rightarrow> nat option \<Rightarrow> nat option" where
  "walkerRoot t current = (case current of None \<Rightarrow> None | Some p \<Rightarrow> rootNode t p)"

definition walkerVisits :: "template \<Rightarrow> nat option \<Rightarrow> nat \<Rightarrow> bool" where
  "walkerVisits t current q =
     (q < length (treeWalker (nodes t)) \<and> rootNode t q = walkerRoot t current)"

datatype error = TypeError | PolyfillError

datatype container = ElementContainer | DocumentFragment "nat option"

text \<open>
  The calls the module makes to code outside it are recorded in a log, in the order they
  are made. \<open>ExtractBegin\<close> and \<open>ExtractEnd\<close> are not calls: they mark where line 134 of
  \<open>render\<close> enters \<open>extractStylesFromTemplate\<close> and where that call returns. Of
  \<open>styleElement\<close> and of the base render the model keeps the call and whether it raises:
  what they do to the host and to the container is outside the module.
\<close>

datatype event =
    PrepareTemplateDom string
  | ExtractBegin string
  | ExtractEnd string
  | PrepareTemplateStyles "node list" string
  | StyleElement nat
  | BaseRender templateResult container "string option"

text \<open>
  \<open>window.ShadyCSS\<close>, when it is there: the two flags the module reads and the three
  hooks it calls. \<open>prepareTemplateDom\<close> rewrites the content of the template element it
  is given; \<open>prepareTemplateStyles\<close> rewrites the content of the style template, or
  raises; \<open>styleElement\<close> is given the host and returns or raises.
\<close>

record shadyCSS =
  nativeShadow :: bool
  ApplyShim :: bool
  prepareTemplateDom :: "node list \<Rightarrow> string \<Rightarrow> node list"
  prepareTemplateStyles :: "node list \<Rightarrow> string \<Rightarrow> error + node list"
  styleElement :: "nat \<Rightarrow> error option"

text \<open>
  The state the module works on. \<open>templateCaches\<close> is the map exported by lit-html: cache
  key to strings array to template. Templates are objects that are changed in place, so
  the caches hold addresses into \<open>heap\<close>, and \<open>new Template\<close> takes the address
  \<open>nextAddr\<close>. \<open>shadyRenderSet\<close> and \<open>needsStyleFixup\<close> are the two module-level constants.
\<close>

record state =
  templateCaches :: "string \<Rightarrow> (nat \<Rightarrow> nat option) option"
  heap :: "nat \<Rightarrow> template"
  nextAddr :: nat
  shadyRenderSet :: "string set"
  needsStyleFixup :: bool
  log :: "event list"

text \<open>
  What the module imports from \<open>lit-html.js\<close> and cannot be read in this file:
  \<open>result.getTemplateElement()\<close>, the constructor \<open>new Template(result, element)\<close>, and
  the base \<open>render\<close>, of which the model takes whether it raises, given the result, the
  container, the scope of the factory passed (none for the default factory) and the state
  it is called in. They are parameters of the model.
\<close>

record lit =
  getTemplateElement :: "templateResult \<Rightarrow> node list"
  newTemplate :: "templateResult \<Rightarrow> node list \<Rightarrow> template"
  baseRender :: "templateResult \<Rightarrow> container \<Rightarrow> string option \<Rightarrow> state \<Rightarrow> error option"

subsection \<open>\<open>shadyTemplateFactory\<close> (lines 29 to 47)\<close>

text \<open>Lines 39 to 43, on a cache miss: the template element of the result, given to
  \<open>prepareTemplateDom\<close> when \<open>window.ShadyCSS\<close> is an object, then compiled. No node of
  a template just made has been removed.\<close>

definition compileTemplate :: "lit \<Rightarrow> shadyCSS option \<Rightarrow> string \<Rightarrow> templateResult \<Rightarrow> template" where
  "compileTemplate l window scopeName result =
     (let element = getTemplateElement l result
      in (newTemplate l result
            (case window of
               Some css \<Rightarrow> prepareTemplateDom css element scopeName
             | None \<Rightarrow> element))\<lparr>removed := []\<rparr>)"

definition shadyTemplateFactory ::
  "lit \<Rightarrow> shadyCSS option \<Rightarrow> string \<Rightarrow> templateResult \<Rightarrow> state \<Rightarrow> nat \<times> state" where
  "shadyTemplateFactory l window scopeName result st =
    (let cacheKey = type result @ ''--'' @ scopeName;
         templateCache = (case templateCaches st cacheKey of
                            None \<Rightarrow> Map.empty
                          | Some m \<Rightarrow> m);
         st1 = st\<lparr>templateCaches := (templateCaches st)(cacheKey \<mapsto> templateCache)\<rparr>
     in case templateCache (strings result) of
          Some a \<Rightarrow> (a, st1)
        | None \<Rightarrow>
            (let a = nextAddr st1
             in (a, st1\<lparr>heap := (heap st1)(a := compileTemplate l window scopeName result),
                        nextAddr := a + 1,
                        templateCaches :=
                          (templateCaches st1)(cacheKey \<mapsto> templateCache(strings result \<mapsto> a)),
                        log := log st1 @ (case window of
                                            Some css \<Rightarrow> [PrepareTemplateDom scopeName]
                                          | None \<Rightarrow> [])\<rparr>)))"

subsection \<open>\<open>extractStylesFromTemplate\<close> and \<open>extractStylesFromValue\<close> (lines 51 to 102)\<close>

text \<open>The local variables of the loop of \<open>extractStylesFromTemplate\<close>. \<open>nodeIndex\<close> is the
  variable \<open>index\<close> of the source (the name is taken by the field of a part);
  \<open>nodesToRemove\<close> holds the nodes pushed, by their positions; \<open>currentNode\<close> is
  \<open>walker.currentNode\<close>, \<open>None\<close> while the walker is on the content.\<close>

record loopVars =
  partIndex :: nat
  partDelta :: int
  disableUntil :: int
  nodeIndex :: int
  nodesToRemove :: "nat list"
  currentNode :: "nat option"

text \<open>The parameter \<open>templateFactory: Function\<close>: it returns the template (its address)
  and may add to the caches.\<close>

type_synonym factory = "templateResult \<Rightarrow> state \<Rightarrow> nat \<times> state"

text \<open>Lines 69 to 75: what the loop does when the node, at position \<open>q\<close>, is a style
  element. \<open>nodeIndex\<close> has been incremented already.\<close>

definition styleStep :: "nat \<Rightarrow> node \<Rightarrow> loopVars \<Rightarrow> node list \<Rightarrow> loopVars \<times> node list" where
  "styleStep q node w styleTemplate =
     (if localName node = Some ''style'' then
        (let removeCount = int (length (childNodes node)) + 1
         in (w\<lparr>disableUntil := nodeIndex w + removeCount,
               partDelta := partDelta w - removeCount,
               nodesToRemove := nodesToRemove w @ [q]\<rparr>,
             styleTemplate @ [node]))
      else (w, styleTemplate))"

text \<open>Lines 77 to 81: the new index of the part the loop has matched.\<close>

definition partStep :: "loopVars \<Rightarrow> templatePart \<Rightarrow> templatePart" where
  "partStep w part =
     (if nodeIndex w < disableUntil w then part\<lparr>index := - 1\<rparr>
      else part\<lparr>index := index part + partDelta w\<rparr>)"

text \<open>\<open>result.values[partIndex]\<close>: reading past the end of an array gives undefined.\<close>

definition valueAt :: "templateResult \<Rightarrow> nat \<Rightarrow> jsvalue" where
  "valueAt result i =
     (if i < length (values_of result) then values_of result ! i else VUndefined)"

text \<open>
  Line 88, \<open>nodesToRemove.forEach((n) => n.parentNode!.removeChild(n))\<close>: a node that has
  been removed already has no parent, and calling \<open>removeChild\<close> of null raises a TypeError;
  the nodes before it have been removed by then.
\<close>

fun removeEach :: "nat list \<Rightarrow> template \<Rightarrow> error option \<times> template" where
  "removeEach [] t = (None, t)"
| "removeEach (q # qs) t =
     (if q \<in> set (removed t) then (Some TypeError, t)
      else removeEach qs (t\<lparr>removed := removed t @ [q]\<rparr>))"

text \<open>
  The two functions of the source and their two loops: \<open>extractLoop\<close> is the
  \<open>while (walker.nextNode())\<close> of \<open>extractStylesFromTemplate\<close> and \<open>extractItems\<close> is the
  \<open>for (const item of value)\<close> of \<open>extractStylesFromValue\<close>. Each returns the error
  raised, if any, the content of the style template and the state.

  The loop goes through the positions of the nodes of the template element in document
  order, \<open>q\<close> being the next position and \<open>n\<close> the number of positions left, and stops at
  each position the walker visits. The template is read from the heap at every step,
  nodes and parts, since the source holds references to them: a nested call for the very
  same template (a result that has a result of its own strings array among its values)
  changes the parts and removes nodes under the loop that called it.

  In \<open>extractStylesFromValue\<close>, the test of line 97 reads \<open>value[Symbol.iterator]\<close> of
  every value that is neither an array nor a string: for null and undefined that read
  raises a TypeError, for numbers, booleans and objects that are not iterable it gives
  undefined. An iterable is given by the items it yields, finitely many.
\<close>

function extractStylesFromTemplate ::
    "factory \<Rightarrow> templateResult \<Rightarrow> node list \<Rightarrow> state \<Rightarrow> error option \<times> node list \<times> state"
  and extractLoop ::
    "factory \<Rightarrow> templateResult \<Rightarrow> nat \<Rightarrow> nat \<Rightarrow> nat \<Rightarrow> loopVars \<Rightarrow> node list \<Rightarrow> state
       \<Rightarrow> error option \<times> loopVars \<times> node list \<times> state"
  and extractStylesFromValue ::
    "factory \<Rightarrow> jsvalue \<Rightarrow> node list \<Rightarrow> state \<Rightarrow> error option \<times> node list \<times> state"
  and extractItems ::
    "factory \<Rightarrow> jsvalue list \<Rightarrow> node list \<Rightarrow> state \<Rightarrow> error option \<times> node list \<times> state"
where
  "extractStylesFromTemplate templateFactory result styleTemplate st =
     (let (a, st1) = templateFactory result st;
          w0 = \<lparr>partIndex = 0, partDelta = 0, disableUntil = 0, nodeIndex = - 1,
                nodesToRemove = [], currentNode = None\<rparr>
      in case extractLoop templateFactory result a
                (length (treeWalker (nodes (heap st1 a)))) 0 w0 styleTemplate st1 of
           (Some e, w, styleTemplate', st2) \<Rightarrow> (Some e, styleTemplate', st2)
         | (None, w, styleTemplate', st2) \<Rightarrow>
             (case removeEach (nodesToRemove w) (heap st2 a) of
                (e, t) \<Rightarrow> (e, styleTemplate', st2\<lparr>heap := (heap st2)(a := t)\<rparr>)))"
| "extractLoop templateFactory result a 0 q w styleTemplate st = (None, w, styleTemplate, st)"
| "extractLoop templateFactory result a (Suc n) q w styleTemplate st =
     (if \<not> walkerVisits (heap st a) (currentNode w) q then
        extractLoop templateFactory result a n (q + 1) w styleTemplate st
      else
        (let (w1, styleTemplate1) =
               styleStep q (nodeAt (heap st a) q)
                 (w\<lparr>nodeIndex := nodeIndex w + 1, currentNode := Some q\<rparr>) styleTemplate;
             ps = parts (heap st a)
         in if partIndex w1 < length ps \<and> index (ps ! partIndex w1) = nodeIndex w1 then
              (let st1 = st\<lparr>heap := (heap st)(a := (heap st a)
                            \<lparr>parts := ps[partIndex w1 := partStep w1 (ps ! partIndex w1)]\<rparr>)\<rparr>
               in case extractStylesFromValue templateFactory (valueAt result (partIndex w1))
                         styleTemplate1 st1 of
                    (Some e, styleTemplate2, st2) \<Rightarrow> (Some e, w1, styleTemplate2, st2)
                  | (None, styleTemplate2, st2) \<Rightarrow>
                      extractLoop templateFactory result a n (q + 1)
                        (w1\<lparr>partIndex := partIndex w1 + 1\<rparr>) styleTemplate2 st2)
            else extractLoop templateFactory result a n (q + 1) w1 styleTemplate1 st))"
| "extractStylesFromValue templateFactory VNull styleTemplate st =
     (Some TypeError, styleTemplate, st)"
| "extractStylesFromValue templateFactory VUndefined styleTemplate st =
     (Some TypeError, styleTemplate, st)"
| "extractStylesFromValue templateFactory (VNumber n) styleTemplate st =
     (None, styleTemplate, st)"
| "extractStylesFromValue templateFactory (VBoolean b) styleTemplate st =
     (None, styleTemplate, st)"
| "extractStylesFromValue templateFactory (VString s) styleTemplate st =
     (None, styleTemplate, st)"
| "extractStylesFromValue templateFactory (VResult r) styleTemplate st =
     extractStylesFromTemplate templateFactory r styleTemplate st"
| "extractStylesFromValue templateFactory (VArray items) styleTemplate st =
     extractItems templateFactory items styleTemplate st"
| "extractStylesFromValue templateFactory (VIterable items) styleTemplate st =
     extractItems templateFactory items styleTemplate st"
| "extractStylesFromValue templateFactory VObject styleTemplate st =
     (None, styleTemplate, st)"
| "extractItems templateFactory [] styleTemplate st = (None, styleTemplate, st)"
| "extractItems templateFactory (item # items) styleTemplate st =
     (case extractStylesFromValue templateFactory item styleTemplate st of
        (Some e, styleTemplate1, st1) \<Rightarrow> (Some e, styleTemplate1, st1)
      | (None, styleTemplate1, st1) \<Rightarrow>
          extractItems templateFactory items styleTemplate1 st1)"
  by pat_completeness auto

text \<open>Every call returns: a nested value is smaller than the result it stands in, and the
  loop over the positions of one template has fewer positions left at every step.\<close>

termination
proof (relation "measures [
     (\<lambda>x. case x of
            Inl (Inl (f, r, s, st)) \<Rightarrow> size r
          | Inl (Inr (f, r, a, n, q, w, s, st)) \<Rightarrow> size r
          | Inr (Inl (f, v, s, st)) \<Rightarrow> size v
          | Inr (Inr (f, vs, s, st)) \<Rightarrow> size_list size vs),
     (\<lambda>x. case x of
            Inl (Inl (f, r, s, st)) \<Rightarrow> 1
          | Inl (Inr (f, r, a, n, q, w, s, st)) \<Rightarrow> 0
          | Inr (Inl (f, v, s, st)) \<Rightarrow> 0
          | Inr (Inr (f, vs, s, st)) \<Rightarrow> 0),
     (\<lambda>x. case x of
            Inl (Inl (f, r, s, st)) \<Rightarrow> 0
          | Inl (Inr (f, r, a, n, q, w, s, st)) \<Rightarrow> n
          | Inr (Inl (f, v, s, st)) \<Rightarrow> 0
          | Inr (Inr (f, vs, s, st)) \<Rightarrow> 0)]", goal_cases)
  case 1
  show ?case by simp
next
  case 2
  show ?case by simp
next
  case 3
  show ?case by simp
next
  case (4 templateFactory result a n q w styleTemplate st x xa y ps xb)
  have "size (valueAt result (partIndex xa)) < size result"
  proof (cases result)
    case (TemplateResult t s vs)
    show ?thesis
    proof (cases "partIndex xa < length vs")
      case True
      then have "vs ! partIndex xa \<in> set vs" by simp
      then have "size (vs ! partIndex xa) \<le> size_list size vs"
        by (rule size_list_estimation') simp
      with True TemplateResult show ?thesis by (simp add: valueAt_def)
    next
      case False
      with TemplateResult show ?thesis by (simp add: valueAt_def)
    qed
  qed
  then show ?case by simp
qed auto

subsection \<open>\<open>insertStyleInTemplate\<close> (lines 104 to 113)\<close>

text \<open>The style element goes in front of the nodes of the content, so the position of
  every node that was there moves up by the number of nodes inserted.\<close>

definition insertStyleInTemplate :: "template \<Rightarrow> node \<Rightarrow> template" where
  "insertStyleInTemplate t style =
     (let adjustIndex = 1 + int (length (childNodes style))
      in t\<lparr>nodes := style # nodes t,
           removed := map (\<lambda>q. q + length (treeWalker [style])) (removed t),
           parts := map (\<lambda>part. if index part \<ge> 0
                                 then part\<lparr>index := index part + adjustIndex\<rparr>
                                 else part) (parts t)\<rparr>)"

subsection \<open>\<open>needsStyleFixup\<close>, \<open>hostForNode\<close> and \<open>render\<close> (lines 115 to 149)\<close>

text \<open>Line 117, evaluated once, when the module is loaded, on \<open>window.ShadyCSS\<close> as it is
  then.\<close>

definition computeNeedsStyleFixup :: "shadyCSS option \<Rightarrow> bool" where
  "computeNeedsStyleFixup window =
     (case window of
        None \<Rightarrow> False
      | Some css \<Rightarrow> \<not> nativeShadow css \<or> ApplyShim css)"

text \<open>The state after the module has been loaded, given the caches of lit-html.\<close>

definition loadModule :: "shadyCSS option \<Rightarrow> state \<Rightarrow> state" where
  "loadModule window st =
     st\<lparr>shadyRenderSet := {}, needsStyleFixup := computeNeedsStyleFixup window\<rparr>"

text \<open>A shadow root is a document fragment with a host; another fragment has none, and so
  has an element.\<close>

fun hostForNode :: "container \<Rightarrow> nat option" where
  "hostForNode ElementContainer = None"
| "hostForNode (DocumentFragment h) = h"

text \<open>\<open>styleTemplate.content.querySelector('style')\<close>: the first style element in document
  order.\<close>

definition querySelectorStyle :: "node list \<Rightarrow> node option" where
  "querySelectorStyle c = find (\<lambda>n. localName n = Some ''style'') (treeWalker c)"

text \<open>
  Lines 132 to 142, the body of \<open>if (!shadyRenderSet.has(scopeName))\<close>. \<open>window\<close> is
  \<open>window.ShadyCSS\<close> at the time of the call: calling a hook of it when it is undefined
  raises a TypeError.
\<close>

definition firstRender ::
  "lit \<Rightarrow> shadyCSS option \<Rightarrow> templateResult \<Rightarrow> string \<Rightarrow> state \<Rightarrow> error option \<times> state" where
  "firstRender l window result scopeName st =
    (let templateFactory = shadyTemplateFactory l window scopeName;
         st1 = st\<lparr>shadyRenderSet := insert scopeName (shadyRenderSet st),
                  log := log st @ [ExtractBegin scopeName]\<rparr>
     in case extractStylesFromTemplate templateFactory result [] st1 of
          (Some e, styleTemplate, st2) \<Rightarrow> (Some e, st2)
        | (None, styleTemplate, st2) \<Rightarrow>
            (let st3 = st2\<lparr>log := log st2 @ [ExtractEnd scopeName]\<rparr>
             in case window of
                  None \<Rightarrow> (Some TypeError, st3)
                | Some css \<Rightarrow>
                    (let st4 = st3\<lparr>log := log st3 @ [PrepareTemplateStyles styleTemplate scopeName]\<rparr>
                     in case prepareTemplateStyles css styleTemplate scopeName of
                          Inl e \<Rightarrow> (Some e, st4)
                        | Inr styleTemplate' \<Rightarrow>
                            (if nativeShadow css then
                               (case querySelectorStyle styleTemplate' of
                                  Some style \<Rightarrow>
                                    (let (a, st5) = templateFactory result st4
                                     in (None, st5\<lparr>heap := (heap st5)
                                           (a := insertStyleInTemplate (heap st5 a) style)\<rparr>))
                                | None \<Rightarrow> (None, st4))
                             else (None, st4)))))"

definition render ::
  "lit \<Rightarrow> shadyCSS option \<Rightarrow> templateResult \<Rightarrow> container \<Rightarrow> string \<Rightarrow> state
     \<Rightarrow> error option \<times> state" where
  "render l window result container scopeName st =
    (case hostForNode container of
       Some host \<Rightarrow>
         (if needsStyleFixup st then
            (case (if scopeName \<notin> shadyRenderSet st
                   then firstRender l window result scopeName st
                   else (None, st)) of
               (Some e, st1) \<Rightarrow> (Some e, st1)
             | (None, st1) \<Rightarrow>
                 (case window of
                    None \<Rightarrow> (Some TypeError, st1)
                  | Some css \<Rightarrow>
                      (let st2 = st1\<lparr>log := log st1 @ [StyleElement host]\<rparr>
                       in case styleElement css host of
                            Some e \<Rightarrow> (Some e, st2)
                          | None \<Rightarrow>
                              (baseRender l result container (Some scopeName) st2,
                               st2\<lparr>log := log st2 @
                                 [BaseRender result container (Some scopeName)]\<rparr>))))
          else (baseRender l result container None st,
                st\<lparr>log := log st @ [BaseRender result container None]\<rparr>))
     | None \<Rightarrow> (baseRender l result container None st,
                st\<lparr>log := log st @ [BaseRender result container None]\<rparr>))"

subsection \<open>Sequences of calls\<close>

text \<open>The events a call has added to the log.\<close>

definition eventsSince :: "state \<Rightarrow> state \<Rightarrow> event list" where
  "eventsSince st st' = drop (length (log st)) (log st')"

text \<open>
  What can happen to the caches and the templates outside the lines of \<open>render\<close>: the
  factory of some scope is called for some result (the base render does so, with the
  factory it is given), or a template is changed in place.
\<close>

datatype operation =
    Compile "shadyCSS option" string templateResult
  | Mutate nat "template \<Rightarrow> template"

fun applyOperation :: "lit \<Rightarrow> state \<Rightarrow> operation \<Rightarrow> state" where
  "applyOperation l st (Compile window scopeName result) =
     snd (shadyTemplateFactory l window scopeName result st)"
| "applyOperation l st (Mutate a g) = st\<lparr>heap := (heap st)(a := g (heap st a))\<rparr>"

text \<open>
  One call of \<open>render\<close> in a sequence of calls for one scope name: \<open>window.ShadyCSS\<close> as
  it is at the call, the result, the host of the shadow root rendered into, and what the
  base render and other code do to the caches and the templates before the next call.
\<close>

record call =
  callPolyfill :: shadyCSS
  callResult :: templateResult
  callHost :: nat
  callAfter :: "operation list"

text \<open>
  \<open>render\<close> called again and again for one scope name. An error raised by one call goes
  to its caller; the next call still happens. For each call: what it raised, and the
  events it logged.
\<close>

fun renders ::
  "lit \<Rightarrow> string \<Rightarrow> call list \<Rightarrow> state \<Rightarrow> (error option \<times> event list) list \<times> state" where
  "renders l scopeName [] st = ([], st)"
| "renders l scopeName (c # calls) st =
     (let (e, st1) = render l (Some (callPolyfill c)) (callResult c)
                       (DocumentFragment (Some (callHost c))) scopeName st;
          (rs, st2) = renders l scopeName calls (foldl (applyOperation l) st1 (callAfter c))
      in ((e, eventsSince st st1) # rs, st2))"

text \<open>
  What lines 132 to 135 raise in the first call for a scope: what the extraction raises,
  or else what \<open>prepareTemplateStyles\<close> raises.
\<close>

definition firstOutcome :: "lit \<Rightarrow> shadyCSS \<Rightarrow> templateResult \<Rightarrow> string \<Rightarrow> state \<Rightarrow> error option" where
  "firstOutcome l css result scopeName st =
     (case extractStylesFromTemplate (shadyTemplateFactory l (Some css) scopeName) result []
             (st\<lparr>shadyRenderSet := insert scopeName (shadyRenderSet st),
                 log := log st @ [ExtractBegin scopeName]\<rparr>) of
        (Some e, styleTemplate, st2) \<Rightarrow> Some e
      | (None, styleTemplate, st2) \<Rightarrow>
          (case prepareTemplateStyles css styleTemplate scopeName of
             Inl e \<Rightarrow> Some e
           | Inr styleTemplate' \<Rightarrow> None))"

subsection \<open>Templates without style elements\<close>

definition noStyle :: "node list \<Rightarrow> bool" where
  "noStyle c = list_all (\<lambda>n. localName n \<noteq> Some ''style'') (treeWalker c)"

text \<open>
  No template compiled for the result, or for a result reachable from it through its
  values and through the items of arrays and iterables among them, has a style element.
\<close>

fun styleFreeResult :: "(templateResult \<Rightarrow> template) \<Rightarrow> templateResult \<Rightarrow> bool"
  and styleFreeValue :: "(templateResult \<Rightarrow> template) \<Rightarrow> jsvalue \<Rightarrow> bool" where
  "styleFreeResult C (TemplateResult t s vs) =
     (noStyle (content (C (TemplateResult t s vs))) \<and> (\<forall>v \<in> set vs. styleFreeValue C v))"
| "styleFreeValue C (VResult r) = styleFreeResult C r"
| "styleFreeValue C (VArray items) = (\<forall>v \<in> set items. styleFreeValue C v)"
| "styleFreeValue C (VIterable items) = (\<forall>v \<in> set items. styleFreeValue C v)"
| "styleFreeValue C VNull = True"
| "styleFreeValue C VUndefined = True"
| "styleFreeValue C (VNumber n) = True"
| "styleFreeValue C (VBoolean b) = True"
| "styleFreeValue C (VString s) = True"
| "styleFreeValue C VObject = True"

text \<open>Every template in the caches of the scope is without a style element.\<close>

definition scopeStyleFree :: "string \<Rightarrow> state \<Rightarrow> bool" where
  "scopeStyleFree scopeName st =
     (\<forall>t m s a. templateCaches st (t @ ''--'' @ scopeName) = Some m \<longrightarrow> m s = Some a
        \<longrightarrow> noStyle (content (heap st a)))"

text \<open>
  From \<open>st\<close> to \<open>st'\<close> no template that was there has changed, and every template that
  has been added is as \<open>C\<close> compiled it.
\<close>

definition onlyCompiled :: "(templateResult \<Rightarrow> template) \<Rightarrow> state \<Rightarrow> state \<Rightarrow> bool" where
  "onlyCompiled C st st' =
     (nextAddr st \<le> nextAddr st' \<and>
      (\<forall>a < nextAddr st. heap st' a = heap st a) \<and>
      (\<forall>a. nextAddr st \<le> a \<and> a < nextAddr st' \<longrightarrow> (\<exists>r. heap st' a = C r)))"

text \<open>
  From \<open>st\<close> to \<open>st'\<close> a template without a style element in its content is still one, and a
  walker that stands in the content of it still does.
\<close>

definition keepsWalk :: "state \<Rightarrow> state \<Rightarrow> bool" where
  "keepsWalk st st' =
     (\<forall>a current. noStyle (content (heap st a)) \<and> walkerRoot (heap st a) current = None
        \<longrightarrow> noStyle (content (heap st' a)) \<and> walkerRoot (heap st' a) current = None)"

subsection \<open>What a call may log\<close>

text \<open>A list of events that are all calls of \<open>prepareTemplateDom\<close>.\<close>

definition onlyDom :: "event list \<Rightarrow> bool" where
  "onlyDom evs = (\<forall>e \<in> set evs. \<exists>sc. e = PrepareTemplateDom sc)"

fun isExtraction :: "event \<Rightarrow> bool" where
  "isExtraction (ExtractBegin sc) = True"
| "isExtraction e = False"

fun isStyleProcessing :: "event \<Rightarrow> bool" where
  "isStyleProcessing (PrepareTemplateStyles sink sc) = True"
| "isStyleProcessing e = False"

text \<open>
  What a call of \<open>render\<close> logs from line 144 on: \<open>styleElement\<close> on the host and, unless
  that raises, the base render with the scoped factory.
\<close>

definition laterEvents :: "string \<Rightarrow> call \<Rightarrow> event list" where
  "laterEvents sc c =
     StyleElement (callHost c) #
       (case styleElement (callPolyfill c) (callHost c) of
          None \<Rightarrow> [BaseRender (callResult c) (DocumentFragment (Some (callHost c))) (Some sc)]
        | Some e \<Rightarrow> [])"

text \<open>
  Two relations between the state before and after a step, used as invariants: the step
  leaves the two module constants alone and logs calls of \<open>prepareTemplateDom\<close> only; the
  step keeps every entry of the caches.
\<close>

definition extends :: "state \<Rightarrow> state \<Rightarrow> bool" where
  "extends st st' =
     (shadyRenderSet st' = shadyRenderSet st \<and> needsStyleFixup st' = needsStyleFixup st \<and>
      (\<exists>ds. log st' = log st @ ds \<and> onlyDom ds))"

definition sameSlots :: "state \<Rightarrow> state \<Rightarrow> bool" where
  "sameSlots st st' =
     (\<forall>key m s a. templateCaches st key = Some m \<longrightarrow> m s = Some a \<longrightarrow>
        (\<exists>m'. templateCaches st' key = Some m' \<and> m' s = Some a))"

subsection \<open>The loop variables along the walk\<close>

text \<open>
  Values in which \<open>extractStylesFromValue\<close> finds nothing to do: numbers, booleans,
  strings and objects that are not iterable.
\<close>

fun inert :: "jsvalue \<Rightarrow> bool" where
  "inert (VNumber n) = True"
| "inert (VBoolean b) = True"
| "inert (VString s) = True"
| "inert VObject = True"
| "inert v = False"

definition isStyle :: "node \<Rightarrow> bool" where
  "isStyle n = (localName n = Some ''style'')"

text \<open>The loop variables at the start of the loop (lines 60 to 65).\<close>

definition initialVars :: loopVars where
  "initialVars = \<lparr>partIndex = 0, partDelta = 0, disableUntil = 0, nodeIndex = - 1,
                   nodesToRemove = [], currentNode = None\<rparr>"

text \<open>
  The loop variables after the loop has walked over the given nodes, the first of them at
  position \<open>q\<close>, as far as lines 67 to 75 set them (the part cursor aside):
  \<open>scan 0 (take (i + 1) nodes) initialVars\<close> holds \<open>partDelta\<close> and \<open>disableUntil\<close> as they
  are when the walker stands on the node at position \<open>i\<close> of a template no node of which
  has been removed.
\<close>

fun scan :: "nat \<Rightarrow> node list \<Rightarrow> loopVars \<Rightarrow> loopVars" where
  "scan q [] w = w"
| "scan q (n # ns) w =
     scan (q + 1) ns
       (fst (styleStep q n (w\<lparr>nodeIndex := nodeIndex w + 1, currentNode := Some q\<rparr>) []))"

text \<open>
  What lines 77 to 81 make of a part when the loop, started with the variables \<open>w\<close> on
  the nodes \<open>ns\<close>, reaches the node the part is on.
\<close>

definition reindexed :: "nat \<Rightarrow> node list \<Rightarrow> loopVars \<Rightarrow> templatePart \<Rightarrow> templatePart" where
  "reindexed q ns w p = partStep (scan q (take (nat (index p - nodeIndex w)) ns) w) p"

subsection \<open>Concrete inputs\<close>

text \<open>
  A small instance of lit-html for the examples: six templates, told apart by their
  strings array, each with the content of its template element and the parts the compiler
  finds in it.
  \<^item> 0: \<open><style>p{color:red}</style><p>${x}</p>\<close>, one part on the marker in the paragraph;
  \<^item> 1: \<open><style></style><div a="${x}" b="${y}"></div>\<close>, two attribute parts on the one element;
  \<^item> 2: \<open><div class="${a}" id="${b}"></div><style>:host{color:${c};}</style>\<close>, two attribute
    parts on the element and one part inside the style element;
  \<^item> 3: \<open><style>p{}</style><p class="${c}"></p>\<close>, one attribute part on the node right after
    the style element;
  \<^item> 6: \<open><style>p{}</style><p a="${x}" b="${y}"></p>\<close>, two attribute parts on the node right
    after the style element;
  \<^item> any other: \<open><p>${x}</p>\<close>.
\<close>

definition exampleContent :: "nat \<Rightarrow> node list" where
  "exampleContent s =
     (if s = 0 then [Element ''style'' [Text ''p{color:red}''], Element ''p'' [Comment [], Comment []]]
      else if s = 1 then [Element ''style'' [], Element ''div'' []]
      else if s = 2 then [Element ''div'' [], Element ''style'' [Text '':host{color:'', Text '';}'']]
      else if s = 3 then [Element ''style'' [Text ''p{}''], Element ''p'' []]
      else if s = 6 then [Element ''style'' [Text ''p{}''], Element ''p'' []]
      else [Element ''p'' [Comment [], Comment []]])"

definition exampleParts :: "nat \<Rightarrow> templatePart list" where
  "exampleParts s =
     (if s = 0 then [\<lparr>index = 3\<rparr>]
      else if s = 1 then [\<lparr>index = 1\<rparr>, \<lparr>index = 1\<rparr>]
      else if s = 2 then [\<lparr>index = 0\<rparr>, \<lparr>index = 0\<rparr>, \<lparr>index = 2\<rparr>]
      else if s = 3 then [\<lparr>index = 2\<rparr>]
      else if s = 6 then [\<lparr>index = 2\<rparr>, \<lparr>index = 2\<rparr>]
      else [\<lparr>index = 1\<rparr>])"

definition exampleLit :: lit where
  "exampleLit = \<lparr>getTemplateElement = (\<lambda>r. exampleContent (strings r)),
                 newTemplate = (\<lambda>r e. \<lparr>nodes = e, removed = [], parts = exampleParts (strings r)\<rparr>),
                 baseRender = (\<lambda>r c f st. None)\<rparr>"

text \<open>A polyfill with the given flags, whose hooks leave the DOM as it is and return.\<close>

definition examplePolyfill :: "bool \<Rightarrow> bool \<Rightarrow> shadyCSS" where
  "examplePolyfill native shim =
     \<lparr>nativeShadow = native, ApplyShim = shim,
      prepareTemplateDom = (\<lambda>e sc. e),
      prepareTemplateStyles = (\<lambda>s sc. Inr s),
      styleElement = (\<lambda>h. None)\<rparr>"

text \<open>Before anything has been rendered.\<close>

definition emptyState :: state where
  "emptyState = \<lparr>templateCaches = Map.empty, heap = (\<lambda>a. \<lparr>nodes = [], removed = [], parts = []\<rparr>),
                  nextAddr = 0, shadyRenderSet = {}, needsStyleFixup = False, log = []\<rparr>"

section \<open>Properties\<close>

text \<open>
  First the facts the claims share: how one step of the loop unfolds, what the factory and
  the extraction leave unchanged, and what \<open>render\<close> logs. The claims follow, one
  subsection each.
\<close>

subsection \<open>The loop, one step at a time\<close>

lemma extractLoop_pass:
  assumes "\<not> walkerVisits (heap st a) (currentNode w) q"
  shows "extractLoop f r a (Suc n) q w sink st = extractLoop f r a n (q + 1) w sink st"
  using assms by simp

lemma extractLoop_skip:
  assumes "walkerVisits (heap st a) (currentNode w) q"
      and "styleStep q (nodeAt (heap st a) q)
             (w\<lparr>nodeIndex := nodeIndex w + 1, currentNode := Some q\<rparr>) sink = (w1, sink1)"
      and "\<not> (partIndex w1 < length (parts (heap st a)) \<and>
              index (parts (heap st a) ! partIndex w1) = nodeIndex w1)"
  shows "extractLoop f r a (Suc n) q w sink st = extractLoop f r a n (q + 1) w1 sink1 st"
  using assms by (auto simp: Let_def)

lemma extractLoop_match:
  assumes "walkerVisits (heap st a) (currentNode w) q"
      and "styleStep q (nodeAt (heap st a) q)
             (w\<lparr>nodeIndex := nodeIndex w + 1, currentNode := Some q\<rparr>) sink = (w1, sink1)"
      and "partIndex w1 < length (parts (heap st a))"
      and "index (parts (heap st a) ! partIndex w1) = nodeIndex w1"
  shows "extractLoop f r a (Suc n) q w sink st =
     (case extractStylesFromValue f (valueAt r (partIndex w1)) sink1
             (st\<lparr>heap := (heap st)(a := (heap st a)\<lparr>parts := (parts (heap st a))
                  [partIndex w1 := partStep w1 (parts (heap st a) ! partIndex w1)]\<rparr>)\<rparr>) of
        (Some e, sink2, st2) \<Rightarrow> (Some e, w1, sink2, st2)
      | (None, sink2, st2) \<Rightarrow>
          extractLoop f r a n (q + 1) (w1\<lparr>partIndex := partIndex w1 + 1\<rparr>) sink2 st2)"
  using assms by (auto simp: Let_def)

lemma extractStylesFromTemplate_unfold:
  assumes "f r st = (a, st1)"
      and "extractLoop f r a (length (treeWalker (nodes (heap st1 a)))) 0
             \<lparr>partIndex = 0, partDelta = 0, disableUntil = 0, nodeIndex = - 1, nodesToRemove = [],
               currentNode = None\<rparr>
             sink st1 = (e, w, sink', st2)"
  shows "extractStylesFromTemplate f r sink st =
     (case e of
        Some err \<Rightarrow> (Some err, sink', st2)
      | None \<Rightarrow> (fst (removeEach (nodesToRemove w) (heap st2 a)), sink',
                 st2\<lparr>heap := (heap st2)(a := snd (removeEach (nodesToRemove w) (heap st2 a)))\<rparr>))"
  using assms by (auto simp: Let_def split: option.splits prod.splits)

subsection \<open>What the extraction preserves\<close>

lemma onlyDom_append: "onlyDom (xs @ ys) = (onlyDom xs \<and> onlyDom ys)" by (auto simp: onlyDom_def)

lemma extends_refl: "extends st st"
  by (simp add: extends_def onlyDom_def)

lemma extends_trans: "extends st st1 \<Longrightarrow> extends st1 st2 \<Longrightarrow> extends st st2"
  by (auto simp: extends_def onlyDom_append)

lemma extends_heap: "extends st st1 \<Longrightarrow> extends st (st1\<lparr>heap := h\<rparr>)"
  by (simp add: extends_def)

lemma factory_extends: "extends st (snd (shadyTemplateFactory l w sc r st))"
  by (auto simp: shadyTemplateFactory_def extends_def onlyDom_def Let_def split: option.splits)

text \<open>
  A relation between states that is reflexive and transitive, that holds across every
  call of the factory and across every change of the heap, holds from the state before
  to the state after each of the four functions. The proof follows their recursion.
\<close>

lemma extract_preserves:
  assumes R_refl: "\<And>s. R s s"
      and R_trans: "\<And>s1 s2 s3. R s1 s2 \<Longrightarrow> R s2 s3 \<Longrightarrow> R s1 s3"
      and R_heap: "\<And>s h. R s (s\<lparr>heap := h\<rparr>)"
      and f: "\<And>r s. R s (snd (f r s))"
  shows "R st (snd (snd (extractStylesFromTemplate f r sink st)))"
    and "R st (snd (snd (snd (extractLoop f r a n q w sink st))))"
    and "R st (snd (snd (extractStylesFromValue f v sink st)))"
    and "R st (snd (snd (extractItems f vs sink st)))"
  using f
proof (induction f r sink st and f r a n q w sink st and f v sink st and f vs sink st
       rule: extractStylesFromTemplate_extractLoop_extractStylesFromValue_extractItems.induct)
  case (1 f result sink st)
  obtain a st1 where fr: "f result st = (a, st1)" by (cases "f result st")
  let ?w0 = "\<lparr>partIndex = 0, partDelta = 0, disableUntil = 0, nodeIndex = - 1, nodesToRemove = [],
               currentNode = None\<rparr>"
  obtain e w sink' st2 where lp:
    "extractLoop f result a (length (treeWalker (nodes (heap st1 a)))) 0 ?w0 sink st1 = (e, w, sink', st2)"
    by (metis prod_cases4)
  have "R st st1" using "1.prems" [of st result] fr by simp
  moreover have "R st1 st2" using "1.IH" [OF refl fr [symmetric] refl "1.prems"] lp by simp
  ultimately have "R st st2" by (rule R_trans)
  then show ?case using extractStylesFromTemplate_unfold [OF fr lp]
    by (cases e) (auto intro: R_trans R_heap)
next
  case (2 f result a q w sink st)
  then show ?case by (simp add: R_refl)
next
  case (3 f result a n q w sink st)
  show ?case
  proof (cases "walkerVisits (heap st a) (currentNode w) q")
    case nv: False
    have "R st (snd (snd (snd (extractLoop f result a n (q + 1) w sink st))))"
      using "3.IH"(1) [OF nv "3.prems"] by simp
    then show ?thesis using extractLoop_pass [OF nv] by simp
  next
    case v: True
    let ?wi = "w\<lparr>nodeIndex := nodeIndex w + 1, currentNode := Some q\<rparr>"
    obtain w1 sink1 where ss: "styleStep q (nodeAt (heap st a) q) ?wi sink = (w1, sink1)"
      by (cases "styleStep q (nodeAt (heap st a) q) ?wi sink")
    have nn: "\<not> \<not> walkerVisits (heap st a) (currentNode w) q" using v by simp
    let ?ps = "parts (heap st a)"
    show ?thesis
    proof (cases "partIndex w1 < length ?ps \<and> index (?ps ! partIndex w1) = nodeIndex w1")
      case True
      let ?st1 = "st\<lparr>heap := (heap st)(a := (heap st a)
                           \<lparr>parts := ?ps[partIndex w1 := partStep w1 (?ps ! partIndex w1)]\<rparr>)\<rparr>"
      obtain e sink2 st2 where ev:
        "extractStylesFromValue f (valueAt result (partIndex w1)) sink1 ?st1 = (e, sink2, st2)"
        by (metis prod_cases3)
      have a1: "R ?st1 st2"
        using "3.IH"(2) [OF nn ss [symmetric] refl refl True refl "3.prems"] ev by simp
      have a2: "R st st2" by (rule R_trans [OF R_heap a1])
      show ?thesis
      proof (cases e)
        case None
        have "R st2 (snd (snd (snd (extractLoop f result a n (q + 1)
                 (w1\<lparr>partIndex := partIndex w1 + 1\<rparr>) sink2 st2))))"
          using "3.IH"(3) [OF nn ss [symmetric] refl refl True refl ev [unfolded None, symmetric] refl refl "3.prems"]
          by simp
        with a2 have "R st (snd (snd (snd (extractLoop f result a n (q + 1)
                 (w1\<lparr>partIndex := partIndex w1 + 1\<rparr>) sink2 st2))))"
          by (rule R_trans)
        then show ?thesis using extractLoop_match [OF v ss conjunct1 [OF True] conjunct2 [OF True]] ev None by simp
      next
        case (Some err)
        then show ?thesis using extractLoop_match [OF v ss conjunct1 [OF True] conjunct2 [OF True]] ev a2 by simp
      qed
    next
      case False
      have "R st (snd (snd (snd (extractLoop f result a n (q + 1) w1 sink1 st))))"
        using "3.IH"(4) [OF nn ss [symmetric] refl refl False "3.prems"] by simp
      then show ?thesis using extractLoop_skip [OF v ss False] by simp
    qed
  qed
next
  case (14 f item items sink st)
  obtain e sink1 st1 where ev: "extractStylesFromValue f item sink st = (e, sink1, st1)"
    by (metis prod_cases3)
  have a1: "R st st1" using "14.IH"(1) [OF "14.prems"] ev by simp
  show ?case
  proof (cases e)
    case None
    have "R st1 (snd (snd (extractItems f items sink1 st1)))"
      using "14.IH"(2) [OF ev [unfolded None, symmetric] refl refl "14.prems"] by simp
    with a1 show ?thesis using ev None by (auto intro: R_trans)
  next
    case (Some err)
    then show ?thesis using ev a1 by simp
  qed
qed (simp_all add: R_refl)

lemma sameSlots_refl: "sameSlots st st"
  by (simp add: sameSlots_def)

lemma sameSlots_trans: "sameSlots s1 s2 \<Longrightarrow> sameSlots s2 s3 \<Longrightarrow> sameSlots s1 s3"
  unfolding sameSlots_def by blast

lemma sameSlots_heap: "sameSlots st (st\<lparr>heap := h\<rparr>)"
  by (simp add: sameSlots_def)

lemma factory_sameSlots: "sameSlots st (snd (shadyTemplateFactory l w sc r st))"
  by (auto simp: shadyTemplateFactory_def sameSlots_def Let_def split: option.splits)

lemma factory_hit:
  assumes "templateCaches st (type r @ ''--'' @ sc) = Some m" and "m (strings r) = Some a"
  shows "shadyTemplateFactory l w sc r st = (a, st)"
  using assms by (simp add: shadyTemplateFactory_def Let_def fun_upd_idem)

lemma factory_slot:
  assumes "shadyTemplateFactory l w sc r st = (a, st')"
  shows "\<exists>m. templateCaches st' (type r @ ''--'' @ sc) = Some m \<and> m (strings r) = Some a"
  using assms by (auto simp: shadyTemplateFactory_def Let_def split: option.splits)

lemma extract_extends:
  "extends st (snd (snd (extractStylesFromTemplate (shadyTemplateFactory l w sc) r sink st)))"
  by (rule extract_preserves(1) [where R = extends])
     (auto intro: extends_refl extends_trans extends_heap factory_extends)

lemma extract_slot:
  assumes "extractStylesFromTemplate (shadyTemplateFactory l w sc) r sink st = (e, sink', st')"
  shows "\<exists>m a. templateCaches st' (type r @ ''--'' @ sc) = Some m \<and> m (strings r) = Some a"
proof -
  let ?f = "shadyTemplateFactory l w sc"
  let ?w0 = "\<lparr>partIndex = 0, partDelta = 0, disableUntil = 0, nodeIndex = - 1, nodesToRemove = [],
               currentNode = None\<rparr>"
  obtain a st1 where fr: "?f r st = (a, st1)" by (cases "?f r st")
  obtain e0 w0 sink0 st2 where lp:
    "extractLoop ?f r a (length (treeWalker (nodes (heap st1 a)))) 0 ?w0 sink st1 = (e0, w0, sink0, st2)"
    by (metis prod_cases4)
  from factory_slot [OF fr] obtain m where
    m: "templateCaches st1 (type r @ ''--'' @ sc) = Some m" "m (strings r) = Some a" by blast
  have "sameSlots st1 (snd (snd (snd (extractLoop ?f r a (length (treeWalker (nodes (heap st1 a)))) 0
             ?w0 sink st1))))"
    by (rule extract_preserves(2) [where R = sameSlots])
       (auto intro: sameSlots_refl sameSlots_trans sameSlots_heap factory_sameSlots)
  with lp have "sameSlots st1 st2" by simp
  with m obtain m' where m': "templateCaches st2 (type r @ ''--'' @ sc) = Some m'" "m' (strings r) = Some a"
    unfolding sameSlots_def by blast
  from extractStylesFromTemplate_unfold [OF fr lp] assms
  have "templateCaches st' = templateCaches st2" by (cases e0) auto
  with m' show ?thesis by auto
qed

lemma applyOperation_sameSlots: "sameSlots st (applyOperation l st op)"
  by (cases op) (simp_all add: factory_sameSlots sameSlots_heap)

lemma foldl_applyOperation_sameSlots: "sameSlots st (foldl (applyOperation l) st ops)"
proof (induction ops arbitrary: st)
  case Nil
  show ?case by (simp add: sameSlots_refl)
next
  case (Cons op ops)
  have "sameSlots st (applyOperation l st op)" by (rule applyOperation_sameSlots)
  moreover have "sameSlots (applyOperation l st op) (foldl (applyOperation l) (applyOperation l st op) ops)"
    by (rule Cons.IH)
  ultimately show ?case by (auto intro: sameSlots_trans)
qed

subsection \<open>What \<open>render\<close> logs\<close>

text \<open>
  What lines 132 to 142 do to the two constants and to the log, for either outcome.
\<close>

lemma firstRender_shape:
  assumes "firstRender l w r sc st = (e, st')"
  shows "shadyRenderSet st' = insert sc (shadyRenderSet st)"
    and "needsStyleFixup st' = needsStyleFixup st"
    and "\<exists>ds tail. onlyDom ds \<and> log st' = log st @ ExtractBegin sc # ds @ tail \<and>
           (case e of
              None \<Rightarrow> \<exists>sink. tail = [ExtractEnd sc, PrepareTemplateStyles sink sc]
            | Some err \<Rightarrow> tail = [] \<or> tail = [ExtractEnd sc] \<or>
                (\<exists>sink. tail = [ExtractEnd sc, PrepareTemplateStyles sink sc]))"
proof -
  let ?f = "shadyTemplateFactory l w sc"
  let ?st1 = "st\<lparr>shadyRenderSet := insert sc (shadyRenderSet st), log := log st @ [ExtractBegin sc]\<rparr>"
  obtain e0 sink st2 where ex: "extractStylesFromTemplate ?f r [] ?st1 = (e0, sink, st2)"
    by (metis prod_cases3)
  have "extends ?st1 (snd (snd (extractStylesFromTemplate ?f r [] ?st1)))" by (rule extract_extends)
  with ex have ext: "extends ?st1 st2" by simp
  then obtain ds where ds: "onlyDom ds" "log st2 = log st @ ExtractBegin sc # ds"
    and g2: "shadyRenderSet st2 = insert sc (shadyRenderSet st)"
    and n2: "needsStyleFixup st2 = needsStyleFixup st"
    by (auto simp: extends_def)
  from extract_slot [OF ex] obtain m a where
    slot: "templateCaches st2 (type r @ ''--'' @ sc) = Some m" "m (strings r) = Some a" by blast
  have hit: "\<And>lg. ?f r (st2\<lparr>log := lg\<rparr>) = (a, st2\<lparr>log := lg\<rparr>)"
    by (rule factory_hit [where m = m]) (use slot in simp_all)
  have all: "shadyRenderSet st' = insert sc (shadyRenderSet st) \<and>
    needsStyleFixup st' = needsStyleFixup st \<and>
    (\<exists>tail. log st' = log st @ ExtractBegin sc # ds @ tail \<and>
           (case e of
              None \<Rightarrow> \<exists>sink. tail = [ExtractEnd sc, PrepareTemplateStyles sink sc]
            | Some err \<Rightarrow> tail = [] \<or> tail = [ExtractEnd sc] \<or>
                (\<exists>sink. tail = [ExtractEnd sc, PrepareTemplateStyles sink sc])))"
    using assms ex ds g2 n2 hit
    by (auto simp: firstRender_def Let_def split: option.splits sum.splits if_splits)
  from all show "shadyRenderSet st' = insert sc (shadyRenderSet st)" by simp
  from all show "needsStyleFixup st' = needsStyleFixup st" by simp
  from all ds(1) show "\<exists>ds tail. onlyDom ds \<and> log st' = log st @ ExtractBegin sc # ds @ tail \<and>
           (case e of
              None \<Rightarrow> \<exists>sink. tail = [ExtractEnd sc, PrepareTemplateStyles sink sc]
            | Some err \<Rightarrow> tail = [] \<or> tail = [ExtractEnd sc] \<or>
                (\<exists>sink. tail = [ExtractEnd sc, PrepareTemplateStyles sink sc]))"
    by blast
qed

text \<open>With the polyfill there, a first call that raises has raised in the extraction, with
  nothing logged after it, or in \<open>prepareTemplateStyles\<close>.\<close>

lemma firstRender_shape_polyfill:
  assumes "firstRender l (Some css) r sc st = (Some err, st')"
  shows "\<exists>ds tail. onlyDom ds \<and> log st' = log st @ ExtractBegin sc # ds @ tail \<and>
           (tail = [] \<or> (\<exists>sink. tail = [ExtractEnd sc, PrepareTemplateStyles sink sc]))"
proof -
  let ?f = "shadyTemplateFactory l (Some css) sc"
  let ?st1 = "st\<lparr>shadyRenderSet := insert sc (shadyRenderSet st), log := log st @ [ExtractBegin sc]\<rparr>"
  obtain e0 sink st2 where ex: "extractStylesFromTemplate ?f r [] ?st1 = (e0, sink, st2)"
    by (metis prod_cases3)
  have "extends ?st1 (snd (snd (extractStylesFromTemplate ?f r [] ?st1)))" by (rule extract_extends)
  with ex have ext: "extends ?st1 st2" by simp
  then obtain ds where ds: "onlyDom ds" "log st2 = log st @ ExtractBegin sc # ds"
    by (auto simp: extends_def)
  have "\<exists>tail. log st' = log st @ ExtractBegin sc # ds @ tail \<and>
           (tail = [] \<or> (\<exists>sink. tail = [ExtractEnd sc, PrepareTemplateStyles sink sc]))"
    using assms ex ds
    by (auto simp: firstRender_def Let_def split: option.splits sum.splits if_splits prod.splits)
  with ds(1) show ?thesis by blast
qed

lemma firstRender_outcome: "fst (firstRender l (Some css) r sc st) = firstOutcome l css r sc st"
  by (simp add: firstRender_def firstOutcome_def Let_def
           split: prod.splits option.splits sum.splits)

text \<open>Lines 144 and 145.\<close>

lemma render_gate_closed:
  assumes "needsStyleFixup st" and "hostForNode c = Some h" and "sc \<in> shadyRenderSet st"
  shows "render l (Some css) r c sc st =
           (case styleElement css h of
              Some e \<Rightarrow> (Some e, st\<lparr>log := log st @ [StyleElement h]\<rparr>)
            | None \<Rightarrow> (baseRender l r c (Some sc) (st\<lparr>log := log st @ [StyleElement h]\<rparr>),
                       st\<lparr>log := log st @ [StyleElement h, BaseRender r c (Some sc)]\<rparr>))"
  using assms by (simp add: render_def Let_def split: option.splits)

lemma render_no_fixup:
  assumes "\<not> needsStyleFixup st \<or> hostForNode c = None"
  shows "render l w r c sc st =
           (baseRender l r c None st, st\<lparr>log := log st @ [BaseRender r c None]\<rparr>)"
  using assms by (auto simp: render_def split: option.splits)

text \<open>Lines 129 to 145 for a scope that is not in \<open>shadyRenderSet\<close>: the outcome and the
  state, given what lines 132 to 142 give.\<close>

lemma render_first:
  assumes "needsStyleFixup st" and "hostForNode c = Some h" and "sc \<notin> shadyRenderSet st"
      and "firstRender l w r sc st = (e1, st1)"
  shows "render l w r c sc st =
     (case e1 of
        Some err \<Rightarrow> (Some err, st1)
      | None \<Rightarrow>
          (case w of
             None \<Rightarrow> (Some TypeError, st1)
           | Some css \<Rightarrow>
               (case styleElement css h of
                  Some e \<Rightarrow> (Some e, st1\<lparr>log := log st1 @ [StyleElement h]\<rparr>)
                | None \<Rightarrow> (baseRender l r c (Some sc) (st1\<lparr>log := log st1 @ [StyleElement h]\<rparr>),
                           st1\<lparr>log := log st1 @ [StyleElement h, BaseRender r c (Some sc)]\<rparr>))))"
  using assms by (simp add: render_def Let_def split: option.splits)

lemma firstRender_polyfill:
  assumes "firstRender l w r sc st = (None, st1)"
  shows "\<exists>css. w = Some css"
  using assms by (cases w) (auto simp: firstRender_def Let_def split: prod.splits option.splits)

lemma render_needsStyleFixup: "needsStyleFixup (snd (render l w r c sc st)) = needsStyleFixup st"
proof (cases "needsStyleFixup st \<and> hostForNode c \<noteq> None")
  case False
  then show ?thesis using render_no_fixup [of st c l w r sc] by auto
next
  case True
  then obtain h where h: "hostForNode c = Some h" by auto
  obtain e1 st1 where fr: "firstRender l w r sc st = (e1, st1)" by (cases "firstRender l w r sc st")
  from firstRender_shape(2) [OF fr] show ?thesis
    using True h fr by (auto simp: render_def Let_def split: option.splits)
qed

lemma render_shadyRenderSet:
  assumes "needsStyleFixup st" and "hostForNode c = Some h"
  shows "shadyRenderSet (snd (render l w r c sc st)) = insert sc (shadyRenderSet st)"
proof -
  obtain e1 st1 where fr: "firstRender l w r sc st = (e1, st1)" by (cases "firstRender l w r sc st")
  from firstRender_shape(1) [OF fr] show ?thesis
    using assms fr by (auto simp: render_def Let_def split: option.splits)
qed

lemma applyOperation_constants:
  "needsStyleFixup (applyOperation l st op) = needsStyleFixup st \<and>
   shadyRenderSet (applyOperation l st op) = shadyRenderSet st"
proof (cases op)
  case (Compile w sc r)
  from factory_extends [of st l w sc r] show ?thesis
    unfolding Compile by (simp add: extends_def)
next
  case (Mutate a g)
  then show ?thesis by simp
qed

lemma foldl_applyOperation_constants:
  "needsStyleFixup (foldl (applyOperation l) st ops) = needsStyleFixup st \<and>
   shadyRenderSet (foldl (applyOperation l) st ops) = shadyRenderSet st"
  by (induction ops arbitrary: st) (simp_all add: applyOperation_constants)

text \<open>
  A sequence of calls for a scope that is in \<open>shadyRenderSet\<close>: every call logs what lines
  144 and 145 log, and a call that returns has got \<open>styleElement\<close> to return.
\<close>

lemma renders_gate_closed:
  assumes "needsStyleFixup st" and "sc \<in> shadyRenderSet st"
  shows "map snd (fst (renders l sc calls st)) = map (laterEvents sc) calls \<and>
         (\<forall>i < length calls. fst (fst (renders l sc calls st) ! i) = None \<longrightarrow>
            styleElement (callPolyfill (calls ! i)) (callHost (calls ! i)) = None)"
  using assms
proof (induction calls arbitrary: st)
  case Nil
  then show ?case by simp
next
  case (Cons c calls)
  let ?c = "DocumentFragment (Some (callHost c))"
  obtain e st1 where r1: "render l (Some (callPolyfill c)) (callResult c) ?c sc st = (e, st1)"
    by (cases "render l (Some (callPolyfill c)) (callResult c) ?c sc st")
  have host: "hostForNode ?c = Some (callHost c)" by simp
  note g = render_gate_closed [OF Cons.prems(1) host Cons.prems(2), of l "callPolyfill c" "callResult c"]
  have ev: "eventsSince st st1 = laterEvents sc c"
    using g r1 by (auto simp: eventsSince_def laterEvents_def split: option.splits)
  have ret: "e = None \<Longrightarrow> styleElement (callPolyfill c) (callHost c) = None"
    using g r1 by (auto split: option.splits)
  let ?st2 = "foldl (applyOperation l) st1 (callAfter c)"
  have n1: "needsStyleFixup st1" using render_needsStyleFixup [of l "Some (callPolyfill c)" "callResult c" ?c sc st] r1 Cons.prems(1) by simp
  have g1: "sc \<in> shadyRenderSet st1"
    using render_shadyRenderSet [OF Cons.prems(1) host, of l "Some (callPolyfill c)" "callResult c" sc] r1 by simp
  have "needsStyleFixup ?st2" "sc \<in> shadyRenderSet ?st2"
    using n1 g1 foldl_applyOperation_constants [of l st1 "callAfter c"] by simp_all
  note ih = Cons.IH [OF this]
  have rs: "fst (renders l sc (c # calls) st) = (e, eventsSince st st1) # fst (renders l sc calls ?st2)"
    using r1 by (simp add: split_beta)
  show ?case
  proof (intro conjI allI impI)
    show "map snd (fst (renders l sc (c # calls) st)) = map (laterEvents sc) (c # calls)"
      unfolding rs using ev ih by simp
  next
    fix i assume i: "i < length (c # calls)"
      and n: "fst (fst (renders l sc (c # calls) st) ! i) = None"
    show "styleElement (callPolyfill ((c # calls) ! i)) (callHost ((c # calls) ! i)) = None"
    proof (cases i)
      case 0
      with n rs ret show ?thesis by simp
    next
      case (Suc j)
      with i n rs ih show ?thesis by simp
    qed
  qed
qed

lemma renders_length: "length (fst (renders l sc calls st)) = length calls"
  by (induction calls arbitrary: st) (simp_all add: split_beta)

lemma onlyDom_filter:
  assumes "onlyDom ds"
  shows "filter isExtraction ds = []" and "filter isStyleProcessing ds = []"
    and "StyleElement h \<notin> set ds"
  using assms by (auto simp: onlyDom_def filter_empty_conv)

lemma laterEvents_filter:
  "filter isExtraction (concat (map (laterEvents sc) calls)) = []"
  "filter isStyleProcessing (concat (map (laterEvents sc) calls)) = []"
  by (induction calls) (auto simp: laterEvents_def split: option.splits)

subsection \<open>Nodes, positions and removals\<close>

lemma treeWalker_append: "treeWalker (xs @ ys) = treeWalker xs @ treeWalker ys"
  by (induction xs rule: treeWalker.induct) simp_all

lemma removeNodes_Nil: "removeNodes [] i c = c"
  by (induction "[] :: nat list" i c rule: removeNodes.induct) simp_all

lemma removeNodes_outside:
  "(\<forall>q \<in> set rm. q < i \<or> i + length (treeWalker ns) \<le> q) \<Longrightarrow> removeNodes rm i ns = ns"
proof (induction rm i ns rule: removeNodes.induct)
  case (2 rm i nm cs ns)
  have a: "i \<notin> set rm" using "2.prems" by force
  have b: "removeNodes rm (i + 1) cs = cs" by (rule "2.IH"(1)) (use "2.prems" in auto)
  have c: "removeNodes rm (i + 1 + length (treeWalker cs)) ns = ns"
    by (rule "2.IH"(2)) (use "2.prems" in auto)
  from a b c show ?case by simp
next
  case (3 rm i s ns)
  have a: "i \<notin> set rm" using "3.prems" by force
  have c: "removeNodes rm (i + 1) ns = ns" by (rule "3.IH") (use "3.prems" in auto)
  from a c show ?case by simp
next
  case (4 rm i s ns)
  have a: "i \<notin> set rm" using "4.prems" by force
  have c: "removeNodes rm (i + 1) ns = ns" by (rule "4.IH") (use "4.prems" in auto)
  from a c show ?case by simp
qed simp

lemma removeNodes_shift:
  "removeNodes (map (\<lambda>q. q + k) rm) (i + k) ns = removeNodes rm i ns"
proof (induction rm i ns rule: removeNodes.induct)
  case (2 rm i nm cs ns)
  have m: "(i + k \<in> set (map (\<lambda>q. q + k) rm)) = (i \<in> set rm)" by auto
  have b: "i \<notin> set rm \<Longrightarrow>
             removeNodes (map (\<lambda>q. q + k) rm) (i + k + 1) cs = removeNodes rm (i + 1) cs"
    using "2.IH"(1) by (simp add: ac_simps)
  have c: "removeNodes (map (\<lambda>q. q + k) rm) (i + k + 1 + length (treeWalker cs)) ns
             = removeNodes rm (i + 1 + length (treeWalker cs)) ns"
    using "2.IH"(2) by (simp add: ac_simps)
  show ?case using m b c by (cases "i \<in> set rm") simp_all
next
  case (3 rm i s ns)
  have m: "(i + k \<in> set (map (\<lambda>q. q + k) rm)) = (i \<in> set rm)" by auto
  have c: "removeNodes (map (\<lambda>q. q + k) rm) (i + k + 1) ns = removeNodes rm (i + 1) ns"
    using "3.IH" by (simp add: ac_simps)
  show ?case using m c by simp
next
  case (4 rm i s ns)
  have m: "(i + k \<in> set (map (\<lambda>q. q + k) rm)) = (i \<in> set rm)" by auto
  have c: "removeNodes (map (\<lambda>q. q + k) rm) (i + k + 1) ns = removeNodes rm (i + 1) ns"
    using "4.IH" by (simp add: ac_simps)
  show ?case using m c by simp
qed simp

lemma roots_length: "length (roots rm up i ns) = length (treeWalker ns)"
  by (induction rm up i ns rule: roots.induct) simp_all

lemma roots_Nil: "roots [] up i ns = replicate (length (treeWalker ns)) up"
  by (induction "[] :: nat list" up i ns rule: roots.induct) (simp_all add: replicate_add)

lemma roots_detached: "up \<noteq> None \<Longrightarrow> None \<notin> set (roots rm up i ns)"
  by (induction rm up i ns rule: roots.induct) auto

lemma filter_zip_detached:
  assumes "None \<notin> set rs"
  shows "filter (\<lambda>p. fst p = None) (zip rs xs) = []"
proof -
  have "\<forall>p \<in> set (zip rs xs). fst p \<noteq> None"
  proof
    fix p assume "p \<in> set (zip rs xs)"
    then have "(fst p, snd p) \<in> set (zip rs xs)" by simp
    then have "fst p \<in> set rs" by (rule set_zip_leftD)
    with assms show "fst p \<noteq> None" by metis
  qed
  then show ?thesis by (simp add: filter_empty_conv)
qed

text \<open>
  The nodes of the content, in document order, are the nodes whose root is the content,
  each with the local name it has always had.
\<close>

lemma content_names:
  "up = None \<Longrightarrow>
   map localName (treeWalker (removeNodes rm i ns)) =
     map (\<lambda>p. localName (snd p)) (filter (\<lambda>p. fst p = None) (zip (roots rm up i ns) (treeWalker ns)))"
proof (induction rm up i ns rule: roots.induct)
  case (1 rm up i)
  show ?case by simp
next
  case (2 rm up i nm cs ns)
  have len: "length (roots rm (if i \<in> set rm then Some i else up) (i + 1) cs) = length (treeWalker cs)"
    by (rule roots_length)
  have rest: "map localName (treeWalker (removeNodes rm (i + 1 + length (treeWalker cs)) ns)) =
     map (\<lambda>p. localName (snd p))
       (filter (\<lambda>p. fst p = None) (zip (roots rm up (i + 1 + length (treeWalker cs)) ns) (treeWalker ns)))"
    by (rule "2.IH"(2) [OF "2.prems"])
  show ?case
  proof (cases "i \<in> set rm")
    case True
    have "None \<notin> set (roots rm (Some i) (i + 1) cs)" by (rule roots_detached) simp
    then have "filter (\<lambda>p. fst p = None) (zip (roots rm (Some i) (i + 1) cs) (treeWalker cs)) = []"
      by (rule filter_zip_detached)
    with True rest len show ?thesis by (simp add: zip_append)
  next
    case False
    have kids: "map localName (treeWalker (removeNodes rm (i + 1) cs)) =
       map (\<lambda>p. localName (snd p))
         (filter (\<lambda>p. fst p = None) (zip (roots rm (if i \<in> set rm then Some i else up) (i + 1) cs) (treeWalker cs)))"
      by (rule "2.IH"(1)) (use False "2.prems" in simp)
    from False rest len kids "2.prems" show ?thesis
      by (simp add: zip_append treeWalker_append)
  qed
next
  case (3 rm up i s ns)
  from "3.IH" [OF "3.prems"] "3.prems" show ?case by simp
next
  case (4 rm up i s ns)
  from "4.IH" [OF "4.prems"] "4.prems" show ?case by simp
qed

lemma localName_nodeAt: "localName (nodeAt t q) = localName (treeWalker (nodes t) ! q)"
  by (cases "treeWalker (nodes t) ! q") (simp_all add: nodeAt_def)

lemma attached_not_style:
  assumes ns: "noStyle (content t)" and q: "q < length (treeWalker (nodes t))"
      and r: "rootNode t q = None"
  shows "localName (nodeAt t q) \<noteq> Some ''style''"
proof -
  let ?rs = "roots (removed t) None 0 (nodes t)" and ?tw = "treeWalker (nodes t)"
  have len: "length ?rs = length ?tw" by (rule roots_length)
  have r': "?rs ! q = None" using r q by (simp add: rootNode_def)
  have "(?rs ! q, ?tw ! q) \<in> set (zip ?rs ?tw)"
    using q len by (auto simp: set_zip)
  with r' have "(None, ?tw ! q) \<in> set (filter (\<lambda>p. fst p = None) (zip ?rs ?tw))" by simp
  then have "localName (?tw ! q) \<in> set (map (\<lambda>p. localName (snd p))
                (filter (\<lambda>p. fst p = None) (zip ?rs ?tw)))"
    by force
  then have "localName (?tw ! q) \<in> set (map localName (treeWalker (content t)))"
    using content_names [OF refl, of "removed t" 0 "nodes t"] by (simp add: content_def)
  with ns show ?thesis by (auto simp: noStyle_def list_all_iff localName_nodeAt)
qed

lemma rootNode_fresh: "removed t = [] \<Longrightarrow> rootNode t q = None"
  by (simp add: rootNode_def roots_Nil)

lemma walkerRoot_fresh: "removed t = [] \<Longrightarrow> walkerRoot t current = None"
  by (cases current) (simp_all add: walkerRoot_def rootNode_fresh)

subsection \<open>Extraction from templates without style elements\<close>

lemma styleFreeResult_values:
  "styleFreeResult C r \<Longrightarrow> \<forall>v \<in> set (values_of r). styleFreeValue C v"
  by (cases r) simp

lemma styleFreeValue_valueAt:
  "\<forall>v \<in> set (values_of r). styleFreeValue C v \<Longrightarrow> styleFreeValue C (valueAt r i)"
  by (simp add: valueAt_def)

lemma styleStep_other:
  "localName node \<noteq> Some ''style'' \<Longrightarrow> styleStep q node w sink = (w, sink)"
  by (simp add: styleStep_def)

lemma styleFreeResult_noStyle: "styleFreeResult C r \<Longrightarrow> noStyle (content (C r))"
  by (cases r) simp

lemma keepsWalk_refl: "keepsWalk st st"
  by (simp add: keepsWalk_def)

lemma keepsWalk_trans: "keepsWalk s1 s2 \<Longrightarrow> keepsWalk s2 s3 \<Longrightarrow> keepsWalk s1 s3"
  unfolding keepsWalk_def by blast

text \<open>
  The invariant behind C6, for any factory that keeps an invariant \<open>K\<close> of the state and
  returns templates without style elements: a walker that starts in the content stays in
  it and visits no style element, so \<open>partDelta\<close> stays 0 and \<open>disableUntil\<close> stays behind
  the walker, every part that is matched keeps its index, nothing is appended to the style
  template and nothing is queued for removal. The state changes by calls of the factory
  only.
\<close>

lemma extract_styleFree:
  assumes R_refl: "\<And>s. R s s"
      and R_trans: "\<And>s1 s2 s3. R s1 s2 \<Longrightarrow> R s2 s3 \<Longrightarrow> R s1 s3"
      and R_walk: "\<And>s s'. R s s' \<Longrightarrow> keepsWalk s s'"
      and f: "\<And>r' s. styleFreeResult C r' \<Longrightarrow> K s \<Longrightarrow>
                K (snd (f r' s)) \<and> R s (snd (f r' s)) \<and>
                noStyle (content (heap (snd (f r' s)) (fst (f r' s))))"
  shows "styleFreeResult C r \<Longrightarrow> K st \<Longrightarrow>
           (case extractStylesFromTemplate f r sink st of
              (e, sink', st') \<Rightarrow> sink' = sink \<and> K st' \<and> R st st')"
    and "(\<forall>v \<in> set (values_of r). styleFreeValue C v) \<Longrightarrow> K st \<Longrightarrow>
         noStyle (content (heap st a)) \<Longrightarrow> walkerRoot (heap st a) (currentNode w) = None \<Longrightarrow>
         partDelta w = 0 \<Longrightarrow> disableUntil w \<le> nodeIndex w + 1 \<Longrightarrow>
           (case extractLoop f r a n q w sink st of
              (e, w', sink', st') \<Rightarrow>
                 sink' = sink \<and> K st' \<and> R st st' \<and> nodesToRemove w' = nodesToRemove w)"
    and "styleFreeValue C v \<Longrightarrow> K st \<Longrightarrow>
           (case extractStylesFromValue f v sink st of
              (e, sink', st') \<Rightarrow> sink' = sink \<and> K st' \<and> R st st')"
    and "(\<forall>v \<in> set vs. styleFreeValue C v) \<Longrightarrow> K st \<Longrightarrow>
           (case extractItems f vs sink st of
              (e, sink', st') \<Rightarrow> sink' = sink \<and> K st' \<and> R st st')"
  using f
proof (induction f r sink st and f r a n q w sink st and f v sink st and f vs sink st
       rule: extractStylesFromTemplate_extractLoop_extractStylesFromValue_extractItems.induct)
  case (1 f result sink st)
  note sf = "1.prems"(1) and k = "1.prems"(2) and fA = "1.prems"(3)
  obtain a st1 where fr: "f result st = (a, st1)" by (cases "f result st")
  let ?w0 = "\<lparr>partIndex = 0, partDelta = 0, disableUntil = 0, nodeIndex = - 1, nodesToRemove = [],
               currentNode = None\<rparr>"
  let ?n = "length (treeWalker (nodes (heap st1 a)))"
  obtain e w sink' st2 where lp: "extractLoop f result a ?n 0 ?w0 sink st1 = (e, w, sink', st2)"
    by (metis prod_cases4)
  from fA [OF sf k] fr have k1: "K st1" and r1: "R st st1" and ns: "noStyle (content (heap st1 a))"
    by simp_all
  have "case extractLoop f result a ?n 0 ?w0 sink st1 of
              (e, w', sink', st') \<Rightarrow>
                 sink' = sink \<and> K st' \<and> R st1 st' \<and> nodesToRemove w' = nodesToRemove ?w0"
    by (rule "1.IH" [OF refl fr [symmetric] refl styleFreeResult_values [OF sf] k1 ns _ _ _ fA])
       (simp_all add: walkerRoot_def)
  with lp have res: "sink' = sink" "K st2" "R st1 st2" "nodesToRemove w = []" by simp_all
  from r1 res(3) have "R st st2" by (rule R_trans)
  with res show ?case
    using extractStylesFromTemplate_unfold [OF fr lp]
    by (cases e) simp_all
next
  case (2 f result a q w sink st)
  then show ?case by (simp add: R_refl)
next
  case (3 f result a n q w sink st)
  note vals = "3.prems"(1) and k = "3.prems"(2) and ns = "3.prems"(3) and wr = "3.prems"(4)
    and pd = "3.prems"(5) and du = "3.prems"(6) and fA = "3.prems"(7)
  show ?case
  proof (cases "walkerVisits (heap st a) (currentNode w) q")
    case nv: False
    have "case extractLoop f result a n (q + 1) w sink st of
              (e, w', sink', st') \<Rightarrow> sink' = sink \<and> K st' \<and> R st st' \<and>
                 nodesToRemove w' = nodesToRemove w"
      by (rule "3.IH"(1) [OF nv vals k ns wr pd du fA])
    then show ?thesis using extractLoop_pass [OF nv] by simp
  next
    case v: True
    have nn: "\<not> \<not> walkerVisits (heap st a) (currentNode w) q" using v by simp
    let ?w1 = "w\<lparr>nodeIndex := nodeIndex w + 1, currentNode := Some q\<rparr>"
    from v wr have q: "q < length (treeWalker (nodes (heap st a)))"
      and rq: "rootNode (heap st a) q = None"
      by (simp_all add: walkerVisits_def)
    have nsty: "localName (nodeAt (heap st a) q) \<noteq> Some ''style''"
      by (rule attached_not_style [OF ns q rq])
    then have ss: "styleStep q (nodeAt (heap st a) q) ?w1 sink = (?w1, sink)"
      by (rule styleStep_other)
    have wr1: "walkerRoot (heap st a) (currentNode ?w1) = None"
      using rq by (simp add: walkerRoot_def)
    let ?ps = "parts (heap st a)"
    show ?thesis
    proof (cases "partIndex ?w1 < length ?ps \<and> index (?ps ! partIndex ?w1) = nodeIndex ?w1")
      case True
      have same: "partStep ?w1 (?ps ! partIndex ?w1) = ?ps ! partIndex ?w1"
        using pd du by (simp add: partStep_def)
      let ?st1 = "st\<lparr>heap := (heap st)(a := (heap st a)
                           \<lparr>parts := ?ps[partIndex ?w1 := partStep ?w1 (?ps ! partIndex ?w1)]\<rparr>)\<rparr>"
      have st1: "?st1 = st" unfolding same by simp
      obtain e sink2 st2 where ev:
        "extractStylesFromValue f (valueAt result (partIndex ?w1)) sink ?st1 = (e, sink2, st2)"
        by (metis prod_cases3)
      have "case extractStylesFromValue f (valueAt result (partIndex ?w1)) sink ?st1 of
                (e, sink', st') \<Rightarrow> sink' = sink \<and> K st' \<and> R ?st1 st'"
        by (rule "3.IH"(2) [OF nn ss [symmetric] refl refl True refl
                  styleFreeValue_valueAt [OF vals] _ fA]) (simp only: st1 k)
      with ev st1 have v2: "sink2 = sink" "K st2" "R st st2" by simp_all
      from R_walk [OF v2(3)] ns wr1
      have ns2: "noStyle (content (heap st2 a))"
        and wr2: "walkerRoot (heap st2 a) (currentNode (?w1\<lparr>partIndex := partIndex ?w1 + 1\<rparr>)) = None"
        unfolding keepsWalk_def by auto
      show ?thesis
      proof (cases e)
        case None
        have "case extractLoop f result a n (q + 1) (?w1\<lparr>partIndex := partIndex ?w1 + 1\<rparr>) sink2 st2 of
                (e, w', sink', st') \<Rightarrow> sink' = sink2 \<and> K st' \<and> R st2 st' \<and>
                   nodesToRemove w' = nodesToRemove (?w1\<lparr>partIndex := partIndex ?w1 + 1\<rparr>)"
          by (rule "3.IH"(3) [OF nn ss [symmetric] refl refl True refl ev [unfolded None, symmetric]
                    refl refl vals v2(2) ns2 wr2 _ _ fA]) (use pd du in simp_all)
        then show ?thesis
          using extractLoop_match [OF v ss conjunct1 [OF True] conjunct2 [OF True]] ev None v2
          by (auto intro: R_trans)
      next
        case (Some err)
        then show ?thesis
          using extractLoop_match [OF v ss conjunct1 [OF True] conjunct2 [OF True]] ev v2 by simp
      qed
    next
      case False
      have "case extractLoop f result a n (q + 1) ?w1 sink st of
                (e, w', sink', st') \<Rightarrow> sink' = sink \<and> K st' \<and> R st st' \<and>
                   nodesToRemove w' = nodesToRemove ?w1"
        by (rule "3.IH"(4) [OF nn ss [symmetric] refl refl False vals k ns wr1 _ _ fA])
           (use pd du in simp_all)
      then show ?thesis using extractLoop_skip [OF v ss False] by simp
    qed
  qed
next
  case (14 f item items sink st)
  note vals = "14.prems"(1) and k = "14.prems"(2) and fA = "14.prems"(3)
  obtain e sink1 st1 where ev: "extractStylesFromValue f item sink st = (e, sink1, st1)"
    by (metis prod_cases3)
  have "case extractStylesFromValue f item sink st of
              (e, sink', st') \<Rightarrow> sink' = sink \<and> K st' \<and> R st st'"
    by (rule "14.IH"(1) [OF _ k fA]) (use vals in simp)
  with ev have v: "sink1 = sink" "K st1" "R st st1" by simp_all
  show ?case
  proof (cases e)
    case None
    have "case extractItems f items sink1 st1 of
              (e, sink', st') \<Rightarrow> sink' = sink1 \<and> K st' \<and> R st1 st'"
      by (rule "14.IH"(2) [OF ev [unfolded None, symmetric] refl refl _ v(2) fA]) (use vals in simp)
    then show ?thesis using ev None v by (auto intro: R_trans)
  next
    case (Some err)
    then show ?thesis using ev v by simp
  qed
qed (simp_all add: R_refl)

lemma onlyCompiled_refl: "onlyCompiled C st st"
  by (auto simp: onlyCompiled_def)

lemma onlyCompiled_trans:
  assumes "onlyCompiled C s1 s2" and "onlyCompiled C s2 s3"
  shows "onlyCompiled C s1 s3"
  unfolding onlyCompiled_def
proof (intro conjI allI impI)
  show "nextAddr s1 \<le> nextAddr s3" using assms by (simp add: onlyCompiled_def)
next
  fix a assume "a < nextAddr s1"
  then show "heap s3 a = heap s1 a" using assms by (simp add: onlyCompiled_def)
next
  fix a assume a: "nextAddr s1 \<le> a \<and> a < nextAddr s3"
  show "\<exists>r. heap s3 a = C r"
  proof (cases "a < nextAddr s2")
    case True
    with a assms show ?thesis by (simp add: onlyCompiled_def)
  next
    case False
    with a assms(2) show ?thesis by (simp add: onlyCompiled_def)
  qed
qed

lemma compileTemplate_removed: "removed (compileTemplate l w sc r) = []"
  by (simp add: compileTemplate_def Let_def)

lemma factory_styleFree:
  assumes sf: "styleFreeResult (compileTemplate l w sc) r" and k: "scopeStyleFree sc st"
  shows "scopeStyleFree sc (snd (shadyTemplateFactory l w sc r st)) \<and>
         (onlyCompiled (compileTemplate l w sc) st (snd (shadyTemplateFactory l w sc r st)) \<and>
          keepsWalk st (snd (shadyTemplateFactory l w sc r st))) \<and>
         noStyle (content (heap (snd (shadyTemplateFactory l w sc r st))
                               (fst (shadyTemplateFactory l w sc r st))))"
proof -
  let ?C = "compileTemplate l w sc"
  have fresh: "\<And>current. walkerRoot (?C r) current = None"
    by (rule walkerRoot_fresh [OF compileTemplate_removed])
  note nsC = styleFreeResult_noStyle [OF sf]
  show ?thesis
  proof (cases "templateCaches st (type r @ ''--'' @ sc)")
    case None
    have eq: "shadyTemplateFactory l w sc r st =
       (nextAddr st, st\<lparr>heap := (heap st)(nextAddr st := ?C r), nextAddr := nextAddr st + 1,
          templateCaches := (templateCaches st)(type r @ ''--'' @ sc \<mapsto> [strings r \<mapsto> nextAddr st]),
          log := log st @ (case w of Some css \<Rightarrow> [PrepareTemplateDom sc] | None \<Rightarrow> [])\<rparr>)"
      using None by (simp add: shadyTemplateFactory_def Let_def)
    show ?thesis
      unfolding eq using k nsC None fresh
      by (auto simp: scopeStyleFree_def onlyCompiled_def keepsWalk_def split: if_splits)
  next
    case (Some m)
    show ?thesis
    proof (cases "m (strings r)")
      case None
      have eq: "shadyTemplateFactory l w sc r st =
         (nextAddr st, st\<lparr>heap := (heap st)(nextAddr st := ?C r), nextAddr := nextAddr st + 1,
            templateCaches := (templateCaches st)(type r @ ''--'' @ sc \<mapsto> m(strings r \<mapsto> nextAddr st)),
            log := log st @ (case w of Some css \<Rightarrow> [PrepareTemplateDom sc] | None \<Rightarrow> [])\<rparr>)"
        using None Some by (simp add: shadyTemplateFactory_def Let_def)
      show ?thesis
        unfolding eq using k nsC None Some fresh
        by (auto simp: scopeStyleFree_def onlyCompiled_def keepsWalk_def split: if_splits)
    next
      case (Some a)
      from factory_hit [OF \<open>templateCaches st (type r @ ''--'' @ sc) = Some m\<close> Some]
      have eq: "shadyTemplateFactory l w sc r st = (a, st)" .
      from k \<open>templateCaches st (type r @ ''--'' @ sc) = Some m\<close> Some
      have "noStyle (content (heap st a))" unfolding scopeStyleFree_def by blast
      then show ?thesis unfolding eq using k by (simp add: onlyCompiled_refl keepsWalk_refl)
    qed
  qed
qed

subsection \<open>Extraction when no two parts share an index\<close>

lemma inert_value: "inert v \<Longrightarrow> extractStylesFromValue f v sink st = (None, sink, st)"
  by (cases v) simp_all

lemma styleStep_fst: "fst (styleStep q n w sink) = fst (styleStep q n w [])"
  by (simp add: styleStep_def Let_def)

lemma styleStep_snd: "snd (styleStep q n w sink) = sink @ filter isStyle [n]"
  by (simp add: styleStep_def Let_def isStyle_def)

lemma styleStep_fields:
  "nodeIndex (fst (styleStep q n w sink)) = nodeIndex w"
  "partIndex (fst (styleStep q n w sink)) = partIndex w"
  by (simp_all add: styleStep_def Let_def)

lemma scan_partIndex: "scan q ns (w\<lparr>partIndex := k\<rparr>) = (scan q ns w)\<lparr>partIndex := k\<rparr>"
proof (induction ns arbitrary: q w)
  case Nil
  show ?case by simp
next
  case (Cons n ns)
  have "fst (styleStep q n (w\<lparr>partIndex := k, nodeIndex := nodeIndex w + 1, currentNode := Some q\<rparr>) [])
          = (fst (styleStep q n (w\<lparr>nodeIndex := nodeIndex w + 1, currentNode := Some q\<rparr>) []))\<lparr>partIndex := k\<rparr>"
    by (simp add: styleStep_def Let_def)
  then show ?case using Cons.IH by simp
qed

lemma partStep_partIndex: "partStep (w\<lparr>partIndex := k\<rparr>) p = partStep w p"
  by (simp add: partStep_def)

lemma reindexed_Cons_first:
  assumes "index p = nodeIndex w + 1"
  shows "reindexed q (n # ns) w p =
           partStep (fst (styleStep q n (w\<lparr>nodeIndex := nodeIndex w + 1, currentNode := Some q\<rparr>) sink)) p"
  using assms by (simp add: reindexed_def styleStep_fst [of q n _ sink])

lemma reindexed_Cons_later:
  assumes "nodeIndex w + 1 < index p"
      and "w1 = (fst (styleStep q n (w\<lparr>nodeIndex := nodeIndex w + 1, currentNode := Some q\<rparr>) sink))
                  \<lparr>partIndex := k\<rparr>"
  shows "reindexed q (n # ns) w p = reindexed (q + 1) ns w1 p"
proof -
  from assms(1) obtain m where m: "nat (index p - nodeIndex w) = Suc m"
    and m': "nat (index p - (nodeIndex w + 1)) = m"
    by (cases "nat (index p - nodeIndex w)") auto
  have ni: "nodeIndex w1 = nodeIndex w + 1" using assms(2) by (simp add: styleStep_fields)
  show ?thesis
    unfolding reindexed_def m ni m'
    using assms(2)
    by (simp add: scan_partIndex partStep_partIndex styleStep_fst [of q n _ sink])
qed

lemma nodeAt_fresh: "removed t = [] \<Longrightarrow> nodeAt t q = treeWalker (nodes t) ! q"
  by (cases "treeWalker (nodes t) ! q") (simp_all add: nodeAt_def removeNodes_Nil)

lemma walkerVisits_fresh:
  "removed t = [] \<Longrightarrow> q < length (treeWalker (nodes t)) \<Longrightarrow> walkerVisits t current q"
  by (simp add: walkerVisits_def rootNode_fresh walkerRoot_fresh)

lemma drop_eq_Cons:
  assumes "drop q xs = y # ys"
  shows "q < length xs \<and> xs ! q = y \<and> drop (q + 1) xs = ys"
proof -
  have q: "q < length xs" using assms by (cases "q < length xs") simp_all
  from Cons_nth_drop_Suc [OF q] assms show ?thesis using q by simp
qed

text \<open>
  The loop on a template no node of which has been removed, whose remaining parts have
  strictly increasing indices, all on nodes still to visit, and whose values are plain:
  it returns, every remaining part is matched on its node and gets what \<open>reindexed\<close>
  says, every style element is appended to the style template, and nothing else changes.
\<close>

lemma extractLoop_distinct:
  assumes inert: "\<forall>v \<in> set (values_of r). inert v"
  shows "removed (heap st a) = [] \<Longrightarrow>
         drop q (treeWalker (nodes (heap st a))) = ns \<Longrightarrow> length ns = n \<Longrightarrow>
         partIndex w \<le> length (parts (heap st a)) \<Longrightarrow>
         length (parts (heap st a)) \<le> length (values_of r) \<Longrightarrow>
         sorted_wrt (<) (map index (drop (partIndex w) (parts (heap st a)))) \<Longrightarrow>
         (\<forall>p \<in> set (drop (partIndex w) (parts (heap st a))).
            nodeIndex w < index p \<and> index p \<le> nodeIndex w + int (length ns)) \<Longrightarrow>
         extractLoop f r a n q w sink st =
           (None, (scan q ns w)\<lparr>partIndex := length (parts (heap st a))\<rparr>,
            sink @ filter isStyle ns,
            st\<lparr>heap := (heap st)(a := (heap st a)\<lparr>parts :=
                 take (partIndex w) (parts (heap st a)) @
                 map (reindexed q ns w) (drop (partIndex w) (parts (heap st a)))\<rparr>)\<rparr>)"
proof (induction ns arbitrary: n q w sink st)
  case Nil
  from Nil.prems(7) have "drop (partIndex w) (parts (heap st a)) = []"
    by (cases "drop (partIndex w) (parts (heap st a))") auto
  with Nil.prems(4) have k: "partIndex w = length (parts (heap st a))" by simp
  from Nil.prems(3) have n: "n = 0" by simp
  show ?case unfolding n using k by simp
next
  case (Cons x xs)
  let ?t = "heap st a"
  let ?ps = "parts ?t" and ?k = "partIndex w"
  let ?wi = "w\<lparr>nodeIndex := nodeIndex w + 1, currentNode := Some q\<rparr>"
  note fresh = Cons.prems(1)
  from drop_eq_Cons [OF Cons.prems(2)]
  have q: "q < length (treeWalker (nodes ?t))" and xq: "treeWalker (nodes ?t) ! q = x"
    and dr': "drop (q + 1) (treeWalker (nodes ?t)) = xs" by simp_all
  from Cons.prems(3) obtain n' where n: "n = Suc n'" and n': "length xs = n'" by (cases n) auto
  have v: "walkerVisits ?t (currentNode w) q" by (rule walkerVisits_fresh [OF fresh q])
  have na: "nodeAt ?t q = x" using nodeAt_fresh [OF fresh, of q] xq by simp
  obtain w1 sink1 where ss: "styleStep q x ?wi sink = (w1, sink1)" by (cases "styleStep q x ?wi sink")
  have ss': "styleStep q (nodeAt ?t q) ?wi sink = (w1, sink1)" using ss na by simp
  have w1: "w1 = fst (styleStep q x ?wi sink)" and sink1: "sink1 = sink @ filter isStyle [x]"
    using ss styleStep_snd [of q x ?wi sink] by simp_all
  have f1: "nodeIndex w1 = nodeIndex w + 1" "partIndex w1 = ?k"
    using w1 by (simp_all add: styleStep_fields)
  have sc: "scan q (x # xs) w = scan (q + 1) xs w1" using w1 by (simp add: styleStep_fst [of q x _ sink])
  show ?case
  proof (cases "?k < length ?ps \<and> index (?ps ! ?k) = nodeIndex w + 1")
    case True
    then have klt: "?k < length ?ps" and ik: "index (?ps ! ?k) = nodeIndex w + 1" by simp_all
    let ?p' = "partStep w1 (?ps ! ?k)"
    let ?st1 = "st\<lparr>heap := (heap st)(a := (heap st a)\<lparr>parts := ?ps[?k := ?p']\<rparr>)\<rparr>"
    let ?w2 = "w1\<lparr>partIndex := ?k + 1\<rparr>"
    have dr: "drop ?k ?ps = ?ps ! ?k # drop (Suc ?k) ?ps" using klt by (simp add: Cons_nth_drop_Suc)
    have "valueAt r ?k \<in> set (values_of r)" using klt Cons.prems(5) by (simp add: valueAt_def)
    with inert have iv: "inert (valueAt r ?k)" by blast
    have step: "extractLoop f r a n q w sink st = extractLoop f r a n' (q + 1) ?w2 sink1 ?st1"
      unfolding n
      using extractLoop_match [OF v ss', where f = f and r = r and n = n'] klt ik f1 inert_value [OF iv]
      by simp
    have ps1: "parts (heap ?st1 a) = ?ps[?k := ?p']" by simp
    have later: "\<forall>p \<in> set (drop (Suc ?k) ?ps). nodeIndex w + 1 < index p"
      using Cons.prems(6) ik unfolding dr by simp
    have p0: "removed (heap ?st1 a) = []" using fresh by simp
    have p0': "drop (q + 1) (treeWalker (nodes (heap ?st1 a))) = xs" using dr' by simp
    have p1: "partIndex ?w2 \<le> length (parts (heap ?st1 a))" using klt by simp
    have p2: "length (parts (heap ?st1 a)) \<le> length (values_of r)" using Cons.prems(5) by simp
    have p3: "sorted_wrt (<) (map index (drop (partIndex ?w2) (parts (heap ?st1 a))))"
      using Cons.prems(6) unfolding dr by simp
    have p4: "\<forall>p \<in> set (drop (partIndex ?w2) (parts (heap ?st1 a))).
            nodeIndex ?w2 < index p \<and> index p \<le> nodeIndex ?w2 + int (length xs)"
    proof
      fix p assume "p \<in> set (drop (partIndex ?w2) (parts (heap ?st1 a)))"
      then have m: "p \<in> set (drop (Suc ?k) ?ps)" by simp
      then have "p \<in> set (drop ?k ?ps)" unfolding dr by simp
      with Cons.prems(7) have "index p \<le> nodeIndex w + int (length (x # xs))" by blast
      with later m f1 show "nodeIndex ?w2 < index p \<and> index p \<le> nodeIndex ?w2 + int (length xs)"
        by simp
    qed
    have tk: "take (Suc ?k) (?ps[?k := ?p']) = take ?k ?ps @ [?p']"
      using klt by (simp add: take_Suc_conv_app_nth)
    have first: "reindexed q (x # xs) w (?ps ! ?k) = ?p'"
      using reindexed_Cons_first [OF ik, where q = q and n = x and ns = xs and sink = sink] w1 by simp
    have rest: "map (reindexed (q + 1) xs ?w2) (drop (Suc ?k) ?ps)
                  = map (reindexed q (x # xs) w) (drop (Suc ?k) ?ps)"
    proof (rule map_cong [OF refl])
      fix p assume "p \<in> set (drop (Suc ?k) ?ps)"
      with later have "nodeIndex w + 1 < index p" by blast
      from reindexed_Cons_later [OF this, where ?w1.0 = ?w2 and q = q and n = x and sink = sink
                                   and k = "?k + 1" and ns = xs] w1
      show "reindexed (q + 1) xs ?w2 p = reindexed q (x # xs) w p" by simp
    qed
    have parts_eq: "take (partIndex ?w2) (parts (heap ?st1 a)) @
                 map (reindexed (q + 1) xs ?w2) (drop (partIndex ?w2) (parts (heap ?st1 a)))
          = take ?k ?ps @ map (reindexed q (x # xs) w) (drop ?k ?ps)"
      using tk first rest unfolding dr by simp
    have sc2: "(scan (q + 1) xs ?w2)\<lparr>partIndex := length (parts (heap ?st1 a))\<rparr>
                 = (scan q (x # xs) w)\<lparr>partIndex := length ?ps\<rparr>"
      unfolding sc by (simp add: scan_partIndex)
    have sk: "sink1 @ filter isStyle xs = sink @ filter isStyle (x # xs)" using sink1 by simp
    from Cons.IH [OF p0 p0' n' p1 p2 p3 p4, of sink1]
    have "extractLoop f r a n' (q + 1) ?w2 sink1 ?st1 =
           (None, (scan q (x # xs) w)\<lparr>partIndex := length ?ps\<rparr>, sink @ filter isStyle (x # xs),
            ?st1\<lparr>heap := (heap ?st1)(a := (heap ?st1 a)\<lparr>parts :=
                 take ?k ?ps @ map (reindexed q (x # xs) w) (drop ?k ?ps)\<rparr>)\<rparr>)"
      unfolding parts_eq sc2 sk .
    moreover have "?st1\<lparr>heap := (heap ?st1)(a := (heap ?st1 a)\<lparr>parts :=
                 take ?k ?ps @ map (reindexed q (x # xs) w) (drop ?k ?ps)\<rparr>)\<rparr>
        = st\<lparr>heap := (heap st)(a := (heap st a)\<lparr>parts :=
                 take ?k ?ps @ map (reindexed q (x # xs) w) (drop ?k ?ps)\<rparr>)\<rparr>"
      by simp
    ultimately show ?thesis unfolding step by (simp only:)
  next
    case False
    have later: "\<forall>p \<in> set (drop ?k ?ps). nodeIndex w + 1 < index p"
    proof (cases "?k < length ?ps")
      case True
      then have dr: "drop ?k ?ps = ?ps ! ?k # drop (Suc ?k) ?ps" by (simp add: Cons_nth_drop_Suc)
      from Cons.prems(7) dr have "nodeIndex w < index (?ps ! ?k)" by simp
      with False True have "nodeIndex w + 1 < index (?ps ! ?k)" by simp
      with Cons.prems(6) show ?thesis unfolding dr by auto
    next
      case False
      then show ?thesis by simp
    qed
    have step: "extractLoop f r a n q w sink st = extractLoop f r a n' (q + 1) w1 sink1 st"
      unfolding n by (rule extractLoop_skip [OF v ss']) (use False f1 in simp)
    have p1: "partIndex w1 \<le> length ?ps" using Cons.prems(4) f1 by simp
    have p3: "sorted_wrt (<) (map index (drop (partIndex w1) ?ps))" using Cons.prems(6) f1 by simp
    have p4: "\<forall>p \<in> set (drop (partIndex w1) ?ps).
            nodeIndex w1 < index p \<and> index p \<le> nodeIndex w1 + int (length xs)"
      using Cons.prems(7) later f1 by auto
    have rest: "map (reindexed (q + 1) xs w1) (drop ?k ?ps) = map (reindexed q (x # xs) w) (drop ?k ?ps)"
    proof (rule map_cong [OF refl])
      fix p assume "p \<in> set (drop ?k ?ps)"
      with later have "nodeIndex w + 1 < index p" by blast
      from reindexed_Cons_later [OF this, where ?w1.0 = w1 and q = q and n = x and sink = sink
                                   and k = ?k and ns = xs] w1 f1
      show "reindexed (q + 1) xs w1 p = reindexed q (x # xs) w p" by simp
    qed
    have sk: "sink1 @ filter isStyle xs = sink @ filter isStyle (x # xs)" using sink1 by simp
    note ih = Cons.IH [OF fresh dr' n' p1 Cons.prems(5) p3 p4, of sink1]
    show ?thesis unfolding step sc using ih [unfolded f1(2) rest sk] .
  qed
qed

lemma removeEach_fresh:
  "distinct qs \<Longrightarrow> set qs \<inter> set (removed t) = {} \<Longrightarrow>
     removeEach qs t = (None, t\<lparr>removed := removed t @ qs\<rparr>)"
proof (induction qs arbitrary: t)
  case Nil
  show ?case by simp
next
  case (Cons q qs)
  have a: "q \<notin> set (removed t)" using Cons.prems(2) by simp
  have "removeEach qs (t\<lparr>removed := removed t @ [q]\<rparr>)
          = (None, (t\<lparr>removed := removed t @ [q]\<rparr>)\<lparr>removed := removed (t\<lparr>removed := removed t @ [q]\<rparr>) @ qs\<rparr>)"
    by (rule Cons.IH) (use Cons.prems in auto)
  with a show ?case by simp
qed

text \<open>The nodes the loop queues for removal are queued in document order, each once.\<close>

lemma scan_nodesToRemove:
  "\<exists>qs. nodesToRemove (scan q ns w) = nodesToRemove w @ qs \<and> sorted_wrt (<) qs \<and>
        (\<forall>p \<in> set qs. q \<le> p)"
proof (induction ns arbitrary: q w)
  case Nil
  show ?case by simp
next
  case (Cons n ns)
  let ?w1 = "fst (styleStep q n (w\<lparr>nodeIndex := nodeIndex w + 1, currentNode := Some q\<rparr>) [])"
  from Cons.IH [of "q + 1" ?w1] obtain qs where
    qs: "nodesToRemove (scan (q + 1) ns ?w1) = nodesToRemove ?w1 @ qs" "sorted_wrt (<) qs"
        "\<forall>p \<in> set qs. q + 1 \<le> p" by blast
  show ?case
  proof (cases "isStyle n")
    case True
    then have "nodesToRemove ?w1 = nodesToRemove w @ [q]"
      by (simp add: styleStep_def isStyle_def Let_def)
    with qs have "nodesToRemove (scan q (n # ns) w) = nodesToRemove w @ (q # qs)" by simp
    moreover have "sorted_wrt (<) (q # qs)" using qs(2,3) by auto
    moreover have "\<forall>p \<in> set (q # qs). q \<le> p" using qs(3) by auto
    ultimately show ?thesis by blast
  next
    case False
    then have "nodesToRemove ?w1 = nodesToRemove w"
      by (simp add: styleStep_def isStyle_def)
    with qs have "nodesToRemove (scan q (n # ns) w) = nodesToRemove w @ qs" by simp
    moreover have "\<forall>p \<in> set qs. q \<le> p" using qs(3) by auto
    ultimately show ?thesis using qs(2) by blast
  qed
qed

text \<open>
  The whole extraction from such a template: it returns, the parts are reindexed, the
  style elements are in the style template and have been removed from the content.
\<close>

lemma extraction_with_distinct_indices:
  assumes fr: "f r st = (a, st1)"
      and fresh: "removed (heap st1 a) = []"
      and inert: "\<forall>v \<in> set (values_of r). inert v"
      and len: "length (parts (heap st1 a)) \<le> length (values_of r)"
      and sorted: "sorted_wrt (<) (map index (parts (heap st1 a)))"
      and range: "\<forall>p \<in> set (parts (heap st1 a)).
                    0 \<le> index p \<and> index p < int (length (treeWalker (nodes (heap st1 a))))"
  shows "extractStylesFromTemplate f r sink st =
     (None, sink @ filter isStyle (treeWalker (nodes (heap st1 a))),
      st1\<lparr>heap := (heap st1)(a := (heap st1 a)
         \<lparr>parts := map (reindexed 0 (treeWalker (nodes (heap st1 a))) initialVars) (parts (heap st1 a)),
          removed := nodesToRemove (scan 0 (treeWalker (nodes (heap st1 a))) initialVars)\<rparr>)\<rparr>)"
proof -
  let ?ns = "treeWalker (nodes (heap st1 a))" and ?ps = "parts (heap st1 a)"
  have p0: "drop 0 ?ns = ?ns" by simp
  have p1: "partIndex initialVars \<le> length ?ps" by (simp add: initialVars_def)
  have p3: "sorted_wrt (<) (map index (drop (partIndex initialVars) ?ps))"
    using sorted by (simp add: initialVars_def)
  have p4: "\<forall>p \<in> set (drop (partIndex initialVars) ?ps).
            nodeIndex initialVars < index p \<and> index p \<le> nodeIndex initialVars + int (length ?ns)"
    using range by (auto simp: initialVars_def)
  let ?st2 = "st1\<lparr>heap := (heap st1)(a := (heap st1 a)\<lparr>parts := map (reindexed 0 ?ns initialVars) ?ps\<rparr>)\<rparr>"
  let ?w = "(scan 0 ?ns initialVars)\<lparr>partIndex := length ?ps\<rparr>"
  from extractLoop_distinct [OF inert fresh p0 refl p1 len p3 p4, of f sink]
  have lp: "extractLoop f r a (length ?ns) 0
        \<lparr>partIndex = 0, partDelta = 0, disableUntil = 0, nodeIndex = - 1, nodesToRemove = [],
          currentNode = None\<rparr> sink st1 =
      (None, ?w, sink @ filter isStyle ?ns, ?st2)"
    by (simp add: initialVars_def)
  from scan_nodesToRemove [of 0 ?ns initialVars] obtain qs where
    qs: "nodesToRemove (scan 0 ?ns initialVars) = qs" "sorted_wrt (<) qs"
    by (auto simp: initialVars_def)
  have dq: "distinct qs" using qs(2) by (simp add: strict_sorted_iff)
  have rm: "removeEach (nodesToRemove ?w) (heap ?st2 a)
              = (None, (heap ?st2 a)\<lparr>removed := removed (heap ?st2 a) @ qs\<rparr>)"
    using removeEach_fresh [OF dq, of "heap ?st2 a"] fresh qs(1) by simp
  have "extractStylesFromTemplate f r sink st =
     (None, sink @ filter isStyle ?ns,
      ?st2\<lparr>heap := (heap ?st2)(a := (heap ?st2 a)\<lparr>removed := removed (heap ?st2 a) @ qs\<rparr>)\<rparr>)"
    using extractStylesFromTemplate_unfold [OF fr lp] rm by simp
  moreover have "?st2\<lparr>heap := (heap ?st2)(a := (heap ?st2 a)\<lparr>removed := removed (heap ?st2 a) @ qs\<rparr>)\<rparr>
       = st1\<lparr>heap := (heap st1)(a := (heap st1 a)
         \<lparr>parts := map (reindexed 0 ?ns initialVars) ?ps,
          removed := nodesToRemove (scan 0 ?ns initialVars)\<rparr>)\<rparr>"
    using fresh qs(1) by simp
  ultimately show ?thesis by (simp only:)
qed

lemma scan_nodeIndex: "nodeIndex (scan q ns w) = nodeIndex w + int (length ns)"
  by (induction ns arbitrary: q w) (simp_all add: styleStep_fields)

lemma scan_append: "scan q (xs @ ys) w = scan (q + length xs) ys (scan q xs w)"
  by (induction xs arbitrary: q w) simp_all

lemma scan_partDelta:
  "partDelta (scan q ns w) =
     partDelta w - (\<Sum>n \<leftarrow> filter isStyle ns. 1 + int (length (childNodes n)))"
  by (induction ns arbitrary: q w) (simp_all add: styleStep_def isStyle_def Let_def)

lemma scan_no_style:
  assumes "\<forall>n \<in> set ns. \<not> isStyle n"
  shows "partDelta (scan q ns w) = partDelta w \<and> disableUntil (scan q ns w) = disableUntil w"
  using assms by (induction ns arbitrary: q w) (simp_all add: styleStep_def isStyle_def)

lemma scan_style:
  assumes "isStyle sty"
  shows "disableUntil (scan q [sty] w) = nodeIndex w + 1 + (int (length (childNodes sty)) + 1) \<and>
         partDelta (scan q [sty] w) = partDelta w - (int (length (childNodes sty)) + 1)"
  using assms by (simp add: styleStep_def isStyle_def Let_def)

lemma reindexed_after_style:
  assumes ns: "ns = pre @ sty # rest" and sty: "isStyle sty"
      and m: "m \<le> length rest" and nos: "\<forall>n \<in> set (take m rest). \<not> isStyle n"
      and ip: "index p = int (length pre) + int m"
  shows "index (reindexed 0 ns initialVars p) =
           (if int m < 1 + int (length (childNodes sty)) then - 1
            else index p - (\<Sum>n \<leftarrow> filter isStyle pre. 1 + int (length (childNodes n)))
                         - (1 + int (length (childNodes sty))))"
proof -
  have "nat (index p - nodeIndex initialVars) = length pre + Suc m"
    using ip by (simp add: initialVars_def)
  then have tk: "take (nat (index p - nodeIndex initialVars)) ns = pre @ [sty] @ take m rest"
    using ns by simp
  let ?w1 = "scan 0 pre initialVars"
  let ?w2 = "scan (length pre) [sty] ?w1"
  let ?w3 = "scan (length pre + 1) (take m rest) ?w2"
  have sc: "scan 0 (pre @ [sty] @ take m rest) initialVars = ?w3"
    using scan_append [of 0 pre "[sty] @ take m rest" initialVars]
          scan_append [of "length pre" "[sty]" "take m rest" ?w1]
    by (simp del: scan.simps)
  have n1: "nodeIndex ?w1 = int (length pre) - 1"
    using scan_nodeIndex [of 0 pre initialVars] by (simp add: initialVars_def)
  have d1: "partDelta ?w1 = - (\<Sum>n \<leftarrow> filter isStyle pre. 1 + int (length (childNodes n)))"
    using scan_partDelta [of 0 pre initialVars] by (simp add: initialVars_def)
  have n3: "nodeIndex ?w3 = int (length pre) + int m"
    using m by (simp add: scan_nodeIndex initialVars_def del: scan.simps)
  have du3: "disableUntil ?w3 = int (length pre) + (int (length (childNodes sty)) + 1)"
    using scan_no_style [OF nos, of "length pre + 1" ?w2] scan_style [OF sty, of "length pre" ?w1] n1
    by (simp del: scan.simps)
  have pd3: "partDelta ?w3 = - (\<Sum>n \<leftarrow> filter isStyle pre. 1 + int (length (childNodes n)))
                               - (int (length (childNodes sty)) + 1)"
    using scan_no_style [OF nos, of "length pre + 1" ?w2] scan_style [OF sty, of "length pre" ?w1] d1
    by (simp del: scan.simps)
  show ?thesis
    unfolding reindexed_def tk sc
    using n3 du3 pd3 ip by (simp add: partStep_def)
qed

text \<open>
  The same in closed form, for a part \<open>m\<close> positions after a style element with no style
  element in between: disabled when \<open>m\<close> is at most the number of children of the style
  element, otherwise lowered by what has been removed before it. With \<open>m\<close> one more than
  the number of children the part is at \<open>disableUntil\<close>, and it is lowered.
\<close>

lemma extraction_part_after_style:
  assumes fr: "f r st = (a, st1)"
      and fresh: "removed (heap st1 a) = []"
      and inert: "\<forall>v \<in> set (values_of r). inert v"
      and len: "length (parts (heap st1 a)) \<le> length (values_of r)"
      and sorted: "sorted_wrt (<) (map index (parts (heap st1 a)))"
      and range: "\<forall>p \<in> set (parts (heap st1 a)).
                    0 \<le> index p \<and> index p < int (length (treeWalker (nodes (heap st1 a))))"
      and ns: "treeWalker (nodes (heap st1 a)) = pre @ sty # rest" and sty: "isStyle sty"
      and m: "m \<le> length rest" and nos: "\<forall>n \<in> set (take m rest). \<not> isStyle n"
      and k: "k < length (parts (heap st1 a))"
      and ip: "index (parts (heap st1 a) ! k) = int (length pre) + int m"
  shows "fst (extractStylesFromTemplate f r sink st) = None \<and>
         index (parts (heap (snd (snd (extractStylesFromTemplate f r sink st))) a) ! k) =
           (if int m < 1 + int (length (childNodes sty)) then - 1
            else index (parts (heap st1 a) ! k)
                   - (\<Sum>n \<leftarrow> filter isStyle pre. 1 + int (length (childNodes n)))
                   - (1 + int (length (childNodes sty))))"
proof -
  note run = extraction_with_distinct_indices
               [where f = f and r = r and st = st and sink = sink, OF fr fresh inert len sorted range]
  from run k have "parts (heap (snd (snd (extractStylesFromTemplate f r sink st))) a) ! k
      = reindexed 0 (treeWalker (nodes (heap st1 a))) initialVars (parts (heap st1 a) ! k)"
    by simp
  with reindexed_after_style [OF ns sty m nos ip] run show ?thesis by simp
qed

lemmas example_defs = exampleContent_def exampleParts_def exampleLit_def examplePolyfill_def
  emptyState_def shadyTemplateFactory_def compileTemplate_def styleStep_def partStep_def
  valueAt_def Let_def loadModule_def computeNeedsStyleFixup_def render_def firstRender_def
  querySelectorStyle_def insertStyleInTemplate_def eventsSince_def content_def rootNode_def
  nodeAt_def walkerVisits_def walkerRoot_def

subsection \<open>A result nested in a result of the same strings array\<close>

text \<open>
  The result \<open>html`<style>p{color:red}</style><p>${x}</p>`\<close> with, for \<open>x\<close>, another result
  of the same strings array: both calls of \<open>extractStylesFromTemplate\<close> walk the one
  template. The inner call clones the style element again, disables the part (its index
  is 1 by then, a position inside the style element) and removes the style element; the
  outer call then finds, in line 88, that the style element has no parent and raises a
  TypeError. The paragraph stays in the content.
\<close>

lemma nested_in_itself_raises:
  "extractStylesFromTemplate (shadyTemplateFactory exampleLit None ''x'')
      (TemplateResult ''html'' 0 [VResult (TemplateResult ''html'' 0 [VString ''x''])]) [] emptyState
     = (Some TypeError,
        [Element ''style'' [Text ''p{color:red}''], Element ''style'' [Text ''p{color:red}'']],
        snd (snd (extractStylesFromTemplate (shadyTemplateFactory exampleLit None ''x'')
          (TemplateResult ''html'' 0 [VResult (TemplateResult ''html'' 0 [VString ''x''])]) []
          emptyState))) \<and>
   map index (parts (heap (snd (snd (extractStylesFromTemplate
      (shadyTemplateFactory exampleLit None ''x'')
      (TemplateResult ''html'' 0 [VResult (TemplateResult ''html'' 0 [VString ''x''])]) []
      emptyState))) 0)) = [- 1] \<and>
   content (heap (snd (snd (extractStylesFromTemplate
      (shadyTemplateFactory exampleLit None ''x'')
      (TemplateResult ''html'' 0 [VResult (TemplateResult ''html'' 0 [VString ''x''])]) []
      emptyState))) 0) = [Element ''p'' [Comment [], Comment []]]"
  by (simp add: example_defs)

subsection \<open>C1: when \<open>styleElement\<close> is called\<close>

text \<open>
  Claim C1 says that \<open>styleElement\<close> is called on the host in every call of \<open>render\<close>
  with the polyfill present and a container with a host, also when the polyfill reports
  native Shadow DOM and no ApplyShim, and that the decision follows the flags of the
  polyfill at the time of the call. The code does otherwise, in both respects. With the
  polyfill loaded, native Shadow DOM and no ApplyShim, a render into a shadow root with
  host 7 logs no call of \<open>styleElement\<close>; and when the flags are read as native at load
  time, a later call at which the polyfill reports no native Shadow DOM does not call it
  either.
\<close>

theorem render_native_shadow_counterexample:
  "StyleElement 7 \<notin> set (log (snd (render exampleLit (Some (examplePolyfill True False))
        (TemplateResult ''html'' 0 [VString ''a'']) (DocumentFragment (Some 7)) ''my-elem''
        (loadModule (Some (examplePolyfill True False)) emptyState)))) \<and>
   StyleElement 7 \<notin> set (log (snd (render exampleLit (Some (examplePolyfill False False))
        (TemplateResult ''html'' 0 [VString ''a'']) (DocumentFragment (Some 7)) ''my-elem''
        (loadModule (Some (examplePolyfill True False)) emptyState))))"
  by (simp add: example_defs)

text \<open>
  Claim C1 as amended. \<open>needsStyleFixup\<close> is computed once, when the module is loaded:
  the polyfill is present and it reports no native Shadow DOM or it has ApplyShim. No call
  of \<open>render\<close> changes it, whatever \<open>window.ShadyCSS\<close> is at that call. When it is true
  and the container has a host, a call of \<open>render\<close> that returns has logged
  \<open>styleElement\<close> on that host and then, last, the base render with the scoped factory,
  and no base render before. When it is false or the container has no host, \<open>render\<close>
  does the base render with the default factory and nothing else, and returns or raises
  as the base render does.
\<close>

theorem render_dispatch:
  "needsStyleFixup (loadModule w0 st0) =
     (case w0 of None \<Rightarrow> False | Some css \<Rightarrow> \<not> nativeShadow css \<or> ApplyShim css) \<and>
   needsStyleFixup (snd (render l w r c sc st)) = needsStyleFixup st \<and>
   (needsStyleFixup st \<and> hostForNode c = Some h \<and> fst (render l w r c sc st) = None \<longrightarrow>
      (\<exists>evs. log (snd (render l w r c sc st)) = log st @ evs @ [StyleElement h, BaseRender r c (Some sc)] \<and>
             (\<forall>r' c' s'. BaseRender r' c' s' \<notin> set evs))) \<and>
   (\<not> needsStyleFixup st \<or> hostForNode c = None \<longrightarrow>
      render l w r c sc st =
        (baseRender l r c None st, st\<lparr>log := log st @ [BaseRender r c None]\<rparr>))"
proof -
  have "\<exists>evs. log (snd (render l w r c sc st)) = log st @ evs @ [StyleElement h, BaseRender r c (Some sc)] \<and>
             (\<forall>r' c' s'. BaseRender r' c' s' \<notin> set evs)"
    if n: "needsStyleFixup st" and h: "hostForNode c = Some h" and ok: "fst (render l w r c sc st) = None"
  proof (cases "sc \<in> shadyRenderSet st")
    case True
    from ok n h True obtain css where w: "w = Some css"
      by (cases w) (auto simp: render_def)
    from render_gate_closed [OF n h True, of l css r] w ok
    have "log (snd (render l w r c sc st)) = log st @ [] @ [StyleElement h, BaseRender r c (Some sc)]"
      by (auto split: option.splits)
    then show ?thesis by (metis empty_iff list.set(1))
  next
    case False
    obtain e1 st1 where fr: "firstRender l w r sc st = (e1, st1)" by (cases "firstRender l w r sc st")
    note rf = render_first [OF n h False fr]
    from rf ok have e1: "e1 = None" by (cases e1) auto
    from firstRender_polyfill [OF fr [unfolded e1]] obtain css where w: "w = Some css" by blast
    from rf ok e1 w have se: "styleElement css h = None" by (cases "styleElement css h") auto
    from firstRender_shape(3) [OF fr] e1
    obtain ds sink where ds: "onlyDom ds"
      and lg1: "log st1 = log st @ ExtractBegin sc # ds @ [ExtractEnd sc, PrepareTemplateStyles sink sc]"
      by auto
    let ?evs = "ExtractBegin sc # ds @ [ExtractEnd sc, PrepareTemplateStyles sink sc]"
    have "log (snd (render l w r c sc st)) = log st @ ?evs @ [StyleElement h, BaseRender r c (Some sc)]"
      using rf e1 w se lg1 by simp
    moreover have "\<forall>r' c' s'. BaseRender r' c' s' \<notin> set ?evs" using ds by (auto simp: onlyDom_def)
    ultimately show ?thesis by blast
  qed
  then show ?thesis
    using render_needsStyleFixup [of l w r c sc st] render_no_fixup [of st c l w r sc]
    by (auto simp: loadModule_def computeNeedsStyleFixup_def)
qed

theorem render_dispatch_witness:
  "needsStyleFixup (loadModule (Some (examplePolyfill False False)) emptyState) \<and>
   hostForNode (DocumentFragment (Some 7)) = Some 7 \<and>
   fst (render exampleLit (Some (examplePolyfill False False))
          (TemplateResult ''html'' 0 [VString ''a'']) (DocumentFragment (Some 7)) ''my-elem''
          (loadModule (Some (examplePolyfill False False)) emptyState)) = None \<and>
   (\<exists>evs. log (snd (render exampleLit (Some (examplePolyfill False False))
          (TemplateResult ''html'' 0 [VString ''a'']) (DocumentFragment (Some 7)) ''my-elem''
          (loadModule (Some (examplePolyfill False False)) emptyState)))
        = log (loadModule (Some (examplePolyfill False False)) emptyState) @ evs @
            [StyleElement 7, BaseRender (TemplateResult ''html'' 0 [VString ''a''])
                               (DocumentFragment (Some 7)) (Some ''my-elem'')] \<and>
        (\<forall>r' c' s'. BaseRender r' c' s' \<notin> set evs)) \<and>
   \<not> needsStyleFixup (loadModule (Some (examplePolyfill True False)) emptyState) \<and>
   render exampleLit (Some (examplePolyfill True False))
          (TemplateResult ''html'' 0 [VString ''a'']) (DocumentFragment (Some 7)) ''my-elem''
          (loadModule (Some (examplePolyfill True False)) emptyState)
     = (None, (loadModule (Some (examplePolyfill True False)) emptyState)
          \<lparr>log := log (loadModule (Some (examplePolyfill True False)) emptyState) @
             [BaseRender (TemplateResult ''html'' 0 [VString ''a''])
                (DocumentFragment (Some 7)) None]\<rparr>)"
proof -
  let ?P = "examplePolyfill False False" and ?N = "examplePolyfill True False"
  let ?R = "TemplateResult ''html'' 0 [VString ''a'']" and ?C = "DocumentFragment (Some 7)"
  let ?S = "loadModule (Some ?P) emptyState" and ?T = "loadModule (Some ?N) emptyState"
  have h1: "needsStyleFixup ?S" by (simp add: example_defs)
  have h2: "hostForNode ?C = Some 7" by simp
  have h3: "fst (render exampleLit (Some ?P) ?R ?C ''my-elem'' ?S) = None"
    by (simp add: example_defs)
  have h4: "\<not> needsStyleFixup ?T" by (simp add: example_defs)
  have b0: "baseRender exampleLit ?R ?C None ?T = None" by (simp add: exampleLit_def)
  note a = render_dispatch [where l = exampleLit and w = "Some ?P" and r = ?R and c = ?C
               and sc = "''my-elem''" and st = ?S and h = 7]
  note b = render_dispatch [where l = exampleLit and w = "Some ?N" and r = ?R and c = ?C
               and sc = "''my-elem''" and st = ?T and h = 7]
  from a h1 h2 h3 have c1: "\<exists>evs. log (snd (render exampleLit (Some ?P) ?R ?C ''my-elem'' ?S))
        = log ?S @ evs @ [StyleElement 7, BaseRender ?R ?C (Some ''my-elem'')] \<and>
        (\<forall>r' c' s'. BaseRender r' c' s' \<notin> set evs)" by blast
  from b h4 have "render exampleLit (Some ?N) ?R ?C ''my-elem'' ?T
     = (baseRender exampleLit ?R ?C None ?T, ?T\<lparr>log := log ?T @ [BaseRender ?R ?C None]\<rparr>)" by blast
  with b0 have c2: "render exampleLit (Some ?N) ?R ?C ''my-elem'' ?T
     = (None, ?T\<lparr>log := log ?T @ [BaseRender ?R ?C None]\<rparr>)" by simp
  from h1 h2 h3 h4 c1 c2 show ?thesis by blast
qed

subsection \<open>C2: values that are neither results nor sequences\<close>

text \<open>
  Claim C2 says that \<open>extractStylesFromValue\<close> returns, having changed nothing, for
  every value that is neither a result nor a sequence, null and undefined included. For
  numbers, booleans and strings it does. For null and for undefined the test of line 97
  reads \<open>value[Symbol.iterator]\<close> and raises a TypeError.
\<close>

theorem extractStylesFromValue_scalars:
  "extractStylesFromValue f VNull sink st = (Some TypeError, sink, st) \<and>
   extractStylesFromValue f VUndefined sink st = (Some TypeError, sink, st) \<and>
   extractStylesFromValue f (VNumber n) sink st = (None, sink, st) \<and>
   extractStylesFromValue f (VBoolean b) sink st = (None, sink, st) \<and>
   extractStylesFromValue f (VString s) sink st = (None, sink, st)"
  by simp

subsection \<open>C3: parts after the one style element\<close>

text \<open>
  Claim C3 says that with one style element before all parts, every part that survives
  has its index lowered by one plus the number of children of the style element, parts
  that share an index included. Where no two parts share an index (and the values are
  plain) this is what the extraction does: \<open>extraction_part_after_style\<close> above, with no
  style element in \<open>pre\<close>. But the loop handles at most one part per node (line 76 is an
  \<open>if\<close>): in \<open><style></style><div a="${x}" b="${y}"></div>\<close> both parts have index 1, the
  extraction returns, and the indices are 0 and 1 afterwards, where the claim has 0
  and 0.
\<close>

theorem shared_index_not_reindexed:
  "map index (parts (compileTemplate exampleLit None ''x''
      (TemplateResult ''html'' 1 [VString ''a'', VString ''b'']))) = [1, 1] \<and>
   fst (extractStylesFromTemplate (shadyTemplateFactory exampleLit None ''x'')
      (TemplateResult ''html'' 1 [VString ''a'', VString ''b'']) [] emptyState) = None \<and>
   map index (parts (heap (snd (snd (extractStylesFromTemplate
      (shadyTemplateFactory exampleLit None ''x'')
      (TemplateResult ''html'' 1 [VString ''a'', VString ''b'']) [] emptyState))) 0)) = [0, 1]"
  by (simp add: example_defs)

subsection \<open>C4: parts inside a removed style element\<close>

text \<open>
  Claim C4 says that every part whose index is a position inside a removed style
  element ends with index -1. Where no two parts share an index this holds for the
  style element itself and the nodes that follow it, as many as it has children
  (\<open>extraction_part_after_style\<close> above). In
  \<open><div class="${a}" id="${b}"></div><style>:host{color:${c};}</style>\<close> the parts have the
  indices 0, 0 and 2, the third one on the text inside the style element (positions 1
  to 3). The loop never gets past the second part, which shares its index with the first:
  the style element is extracted and the third part keeps index 2.
\<close>

theorem part_in_style_not_disabled:
  "map index (parts (compileTemplate exampleLit None ''x''
      (TemplateResult ''html'' 2 [VString ''a'', VString ''b'', VString ''c'']))) = [0, 0, 2] \<and>
   fst (extractStylesFromTemplate (shadyTemplateFactory exampleLit None ''x'')
      (TemplateResult ''html'' 2 [VString ''a'', VString ''b'', VString ''c'']) [] emptyState) = None \<and>
   fst (snd (extractStylesFromTemplate (shadyTemplateFactory exampleLit None ''x'')
      (TemplateResult ''html'' 2 [VString ''a'', VString ''b'', VString ''c'']) [] emptyState))
     = [Element ''style'' [Text '':host{color:'', Text '';}'']] \<and>
   map index (parts (heap (snd (snd (extractStylesFromTemplate
      (shadyTemplateFactory exampleLit None ''x'')
      (TemplateResult ''html'' 2 [VString ''a'', VString ''b'', VString ''c'']) [] emptyState))) 0))
     = [0, 0, 2]"
  by (simp add: example_defs)

subsection \<open>C5: the part at \<open>disableUntil\<close>\<close>

text \<open>
  Claim C5 says that a part whose index equals \<open>disableUntil\<close>, one position past the
  last child of a removed style element, is reindexed by \<open>partDelta\<close>, not disabled. Line
  77 compares with \<open><\<close>, so a part that the loop compares at that position is reindexed:
  where no two parts share an index, \<open>extraction_part_after_style\<close> above, with \<open>m\<close> one
  more than the number of children of the style element. But line 76 handles one part
  per node: in \<open><style>p{}</style><p a="${x}" b="${y}"></p>\<close> both parts have index 2,
  which is \<open>disableUntil\<close> after the style element, the extraction returns, and the indices
  are 0 and 2 afterwards: the second part is neither disabled nor reindexed, where the
  claim has 0 and 0.
\<close>

theorem boundary_part_sharing_node_not_reindexed:
  "map index (parts (compileTemplate exampleLit None ''x''
      (TemplateResult ''html'' 6 [VString ''a'', VString ''b'']))) = [2, 2] \<and>
   fst (extractStylesFromTemplate (shadyTemplateFactory exampleLit None ''x'')
      (TemplateResult ''html'' 6 [VString ''a'', VString ''b'']) [] emptyState) = None \<and>
   fst (snd (extractStylesFromTemplate (shadyTemplateFactory exampleLit None ''x'')
      (TemplateResult ''html'' 6 [VString ''a'', VString ''b'']) [] emptyState))
     = [Element ''style'' [Text ''p{}'']] \<and>
   map index (parts (heap (snd (snd (extractStylesFromTemplate
      (shadyTemplateFactory exampleLit None ''x'')
      (TemplateResult ''html'' 6 [VString ''a'', VString ''b'']) [] emptyState))) 0)) = [0, 2]"
  by (simp add: example_defs)

subsection \<open>C6: templates without style elements\<close>

text \<open>
  Claim C6: when no template reachable from the result has a style element (the ones in
  the caches of the scope and the ones compiled on the way), the extraction appends
  nothing to the style template and changes no template: every template that was there
  is as it was, parts and content, and every template added is as it was compiled. This
  holds whether the extraction returns or raises.
\<close>

theorem extraction_without_styles:
  assumes "scopeStyleFree sc st" and "styleFreeResult (compileTemplate l w sc) r"
  shows "fst (snd (extractStylesFromTemplate (shadyTemplateFactory l w sc) r sink st)) = sink \<and>
    (\<forall>a < nextAddr st.
       heap (snd (snd (extractStylesFromTemplate (shadyTemplateFactory l w sc) r sink st))) a
         = heap st a) \<and>
    (\<forall>a. nextAddr st \<le> a \<and>
         a < nextAddr (snd (snd (extractStylesFromTemplate (shadyTemplateFactory l w sc) r sink st)))
       \<longrightarrow> (\<exists>r'. heap (snd (snd (extractStylesFromTemplate (shadyTemplateFactory l w sc) r sink st))) a
                   = compileTemplate l w sc r'))"
proof -
  let ?f = "shadyTemplateFactory l w sc" and ?C = "compileTemplate l w sc"
  let ?R = "\<lambda>s s'. onlyCompiled ?C s s' \<and> keepsWalk s s'"
  have "case extractStylesFromTemplate ?f r sink st of
          (e, sink', st') \<Rightarrow> sink' = sink \<and> scopeStyleFree sc st' \<and> ?R st st'"
  proof (rule extract_styleFree(1) [where R = ?R and K = "scopeStyleFree sc" and C = ?C])
    show "\<And>s. ?R s s" by (simp add: onlyCompiled_refl keepsWalk_refl)
    show "\<And>s1 s2 s3. ?R s1 s2 \<Longrightarrow> ?R s2 s3 \<Longrightarrow> ?R s1 s3"
      by (blast intro: onlyCompiled_trans keepsWalk_trans)
    show "\<And>s s'. ?R s s' \<Longrightarrow> keepsWalk s s'" by simp
    show "\<And>r' s. styleFreeResult ?C r' \<Longrightarrow> scopeStyleFree sc s \<Longrightarrow>
            scopeStyleFree sc (snd (?f r' s)) \<and> ?R s (snd (?f r' s)) \<and>
            noStyle (content (heap (snd (?f r' s)) (fst (?f r' s))))"
      by (rule factory_styleFree)
    show "styleFreeResult ?C r" by (rule assms(2))
    show "scopeStyleFree sc st" by (rule assms(1))
  qed
  then show ?thesis
    by (auto simp: onlyCompiled_def split: prod.splits)
qed

theorem extraction_without_styles_witness:
  "scopeStyleFree ''x'' (snd (shadyTemplateFactory exampleLit None ''x''
      (TemplateResult ''html'' 5 [VString ''z'']) emptyState)) \<and>
   styleFreeResult (compileTemplate exampleLit None ''x'')
     (TemplateResult ''html'' 4
        [VArray [VResult (TemplateResult ''html'' 5 [VString ''a'']), VNumber 1]]) \<and>
   fst (snd (extractStylesFromTemplate (shadyTemplateFactory exampleLit None ''x'')
     (TemplateResult ''html'' 4
        [VArray [VResult (TemplateResult ''html'' 5 [VString ''a'']), VNumber 1]]) []
     (snd (shadyTemplateFactory exampleLit None ''x''
        (TemplateResult ''html'' 5 [VString ''z'']) emptyState)))) = [] \<and>
   heap (snd (snd (extractStylesFromTemplate (shadyTemplateFactory exampleLit None ''x'')
     (TemplateResult ''html'' 4
        [VArray [VResult (TemplateResult ''html'' 5 [VString ''a'']), VNumber 1]]) []
     (snd (shadyTemplateFactory exampleLit None ''x''
        (TemplateResult ''html'' 5 [VString ''z'']) emptyState))))) 0
     = heap (snd (shadyTemplateFactory exampleLit None ''x''
        (TemplateResult ''html'' 5 [VString ''z'']) emptyState)) 0 \<and>
   (\<exists>r'. heap (snd (snd (extractStylesFromTemplate (shadyTemplateFactory exampleLit None ''x'')
     (TemplateResult ''html'' 4
        [VArray [VResult (TemplateResult ''html'' 5 [VString ''a'']), VNumber 1]]) []
     (snd (shadyTemplateFactory exampleLit None ''x''
        (TemplateResult ''html'' 5 [VString ''z'']) emptyState))))) 1
     = compileTemplate exampleLit None ''x'' r')"
proof -
  let ?f = "shadyTemplateFactory exampleLit None ''x''"
  let ?r = "TemplateResult ''html'' 4 [VArray [VResult (TemplateResult ''html'' 5 [VString ''a'']), VNumber 1]]"
  let ?st = "snd (?f (TemplateResult ''html'' 5 [VString ''z'']) emptyState)"
  let ?st' = "snd (snd (extractStylesFromTemplate ?f ?r [] ?st))"
  have h1: "scopeStyleFree ''x'' ?st"
    by (auto simp: scopeStyleFree_def example_defs noStyle_def split: if_splits)
  have h2: "styleFreeResult (compileTemplate exampleLit None ''x'') ?r"
    by (simp add: example_defs noStyle_def)
  have n: "nextAddr ?st = 1" by (simp add: example_defs)
  have n': "nextAddr ?st' = 2" by (simp add: example_defs)
  note t = extraction_without_styles [OF h1 h2, of "[]"]
  note t1 = t [THEN conjunct1]
  note t2 = t [THEN conjunct2, THEN conjunct1, THEN spec, of 0]
  note t3 = t [THEN conjunct2, THEN conjunct2, THEN spec, of 1]
  from t2 n have c2: "heap ?st' 0 = heap ?st 0" by simp
  from t3 n n' have c3: "\<exists>r'. heap ?st' 1 = compileTemplate exampleLit None ''x'' r'" by simp
  from h1 h2 t1 c2 c3 show ?thesis by (intro conjI)
qed

subsection \<open>C7: \<open>insertStyleInTemplate\<close>\<close>

text \<open>
  Claim C7: \<open>insertStyleInTemplate\<close> puts the style element first in the content, adds
  one plus the number of its children to the index of every part whose index is not
  negative, and leaves the other parts as they are. The instance that follows is the example of
  the claim: indices 2, 5, 9 (and a disabled part) with a style element of three children.
\<close>

theorem insertStyleInTemplate_shifts:
  "content (insertStyleInTemplate t style) = style # content t \<and>
   length (parts (insertStyleInTemplate t style)) = length (parts t) \<and>
   (\<forall>i < length (parts t).
      (0 \<le> index (parts t ! i) \<longrightarrow>
         index (parts (insertStyleInTemplate t style) ! i)
           = index (parts t ! i) + (1 + int (length (childNodes style)))) \<and>
      (index (parts t ! i) < 0 \<longrightarrow>
         parts (insertStyleInTemplate t style) ! i = parts t ! i))"
proof -
  let ?k = "length (treeWalker [style])"
  let ?rm = "map (\<lambda>q. q + ?k) (removed t)"
  have rest: "removeNodes ?rm ?k (nodes t) = removeNodes (removed t) 0 (nodes t)"
    using removeNodes_shift [of ?k "removed t" 0 "nodes t"] by simp
  have "removeNodes ?rm 0 (style # nodes t) = style # removeNodes (removed t) 0 (nodes t)"
  proof (cases style)
    case (Element nm cs)
    have k: "?k = 1 + length (treeWalker cs)" using Element by simp
    have a: "0 \<notin> set ?rm" using Element by auto
    have b: "removeNodes ?rm (0 + 1) cs = cs"
      by (rule removeNodes_outside) (auto simp: k)
    from a b rest show ?thesis unfolding Element k by simp
  next
    case (Text s)
    have a: "0 \<notin> set ?rm" using Text by auto
    from a rest show ?thesis unfolding Text by simp
  next
    case (Comment s)
    have a: "0 \<notin> set ?rm" using Comment by auto
    from a rest show ?thesis unfolding Comment by simp
  qed
  then have "content (insertStyleInTemplate t style) = style # content t"
    by (simp add: content_def insertStyleInTemplate_def Let_def)
  then show ?thesis by (simp add: insertStyleInTemplate_def Let_def)
qed

theorem insertStyleInTemplate_shifts_witness:
  "map index (parts (insertStyleInTemplate
      \<lparr>nodes = [Element ''p'' []], removed = [],
       parts = [\<lparr>index = 2\<rparr>, \<lparr>index = 5\<rparr>, \<lparr>index = 9\<rparr>, \<lparr>index = - 1\<rparr>]\<rparr>
      (Element ''style'' [Text ''a'', Text ''b'', Text ''c''])))
   = [6, 9, 13, - 1] \<and>
   content (insertStyleInTemplate
      \<lparr>nodes = [Element ''p'' []], removed = [],
       parts = [\<lparr>index = 2\<rparr>, \<lparr>index = 5\<rparr>, \<lparr>index = 9\<rparr>, \<lparr>index = - 1\<rparr>]\<rparr>
      (Element ''style'' [Text ''a'', Text ''b'', Text ''c'']))
   = [Element ''style'' [Text ''a'', Text ''b'', Text ''c''], Element ''p'' []]"
proof -
  let ?t = "\<lparr>nodes = [Element ''p'' []], removed = [],
       parts = [\<lparr>index = 2\<rparr>, \<lparr>index = 5\<rparr>, \<lparr>index = 9\<rparr>, \<lparr>index = - 1\<rparr>]\<rparr>"
  let ?s = "Element ''style'' [Text ''a'', Text ''b'', Text ''c'']"
  let ?ps = "parts (insertStyleInTemplate ?t ?s)"
  note h = insertStyleInTemplate_shifts [of ?t ?s]
  from h have len: "length ?ps = Suc (Suc (Suc (Suc 0)))" by simp
  from h have step: "\<And>i. i < length (parts ?t) \<Longrightarrow>
      (0 \<le> index (parts ?t ! i) \<longrightarrow> index (?ps ! i) = index (parts ?t ! i) + 4) \<and>
      (index (parts ?t ! i) < 0 \<longrightarrow> ?ps ! i = parts ?t ! i)"
    by simp
  have "index (?ps ! 0) = 6" using step [of 0] by simp
  moreover have "index (?ps ! Suc 0) = 9" using step [of "Suc 0"] by simp
  moreover have "index (?ps ! Suc (Suc 0)) = 13" using step [of "Suc (Suc 0)"] by simp
  moreover have "index (?ps ! Suc (Suc (Suc 0))) = - 1" using step [of "Suc (Suc (Suc 0))"] by simp
  ultimately have c1: "map index ?ps = [6, 9, 13, - 1]" using len
    by (simp add: list_eq_iff_nth_eq less_Suc_eq)
  from h have "content (insertStyleInTemplate ?t ?s) = ?s # content ?t" by (rule conjunct1)
  then have c2: "content (insertStyleInTemplate ?t ?s) = [?s, Element ''p'' []]"
    by (simp add: content_def)
  from c1 c2 show ?thesis by (rule conjI)
qed

subsection \<open>C8: extraction once per scope\<close>

text \<open>
  Claim C8 says that in a sequence of calls of \<open>render\<close> for one scope name on the fix-up
  path \<open>styleElement\<close> is called in every call. A first call in which the extraction or
  \<open>prepareTemplateStyles\<close> raises never gets to line 144: with a null value in the
  result the first call raises a TypeError in the extraction, having logged the beginning
  of the extraction and \<open>prepareTemplateDom\<close> only, and no call of \<open>styleElement\<close>.
\<close>

theorem first_call_raises_before_styleElement:
  "fst (renders exampleLit ''my-elem''
          [\<lparr>callPolyfill = examplePolyfill False False,
             callResult = TemplateResult ''html'' 0 [VNull], callHost = 7, callAfter = []\<rparr>]
          (loadModule (Some (examplePolyfill False False)) emptyState))
     = [(Some TypeError, [ExtractBegin ''my-elem'', PrepareTemplateDom ''my-elem''])] \<and>
   StyleElement 7 \<notin> set (snd (hd (fst (renders exampleLit ''my-elem''
          [\<lparr>callPolyfill = examplePolyfill False False,
             callResult = TemplateResult ''html'' 0 [VNull], callHost = 7, callAfter = []\<rparr>]
          (loadModule (Some (examplePolyfill False False)) emptyState)))))"
  by (simp add: example_defs)

text \<open>
  Claim C8 as amended: in any sequence of calls of \<open>render\<close> for one scope name on the
  fix-up path, whatever is compiled or changed in place between the calls and whatever
  the calls raise, the extraction is entered at most once and \<open>prepareTemplateStyles\<close> is
  called at most once. Every call but the first (and the first too, when the scope is in
  \<open>shadyRenderSet\<close> already) logs exactly \<open>styleElement\<close> on the host and, unless that
  raises, the base render. When neither the extraction nor \<open>prepareTemplateStyles\<close>
  raises in the first call, that call logs in this order: the extraction from its
  beginning to its end, with nothing but calls of \<open>prepareTemplateDom\<close> in between, then
  \<open>prepareTemplateStyles\<close>, then \<open>styleElement\<close>, then, unless that raises, the base
  render. When one of the two raises, the call raises the same, having logged the
  extraction up to there and at most \<open>prepareTemplateStyles\<close> after it. So
  \<open>styleElement\<close> is called in every call except a first call in which the extraction or
  \<open>prepareTemplateStyles\<close> raises, and a call that returns has called \<open>styleElement\<close> and
  then, last, the base render.
\<close>

theorem render_sequence_extracts_once:
  assumes "needsStyleFixup st"
  shows "let rs = fst (renders l sc calls st);
             first = firstOutcome l (callPolyfill (hd calls)) (callResult (hd calls)) sc st
         in
     length rs = length calls \<and>
     length (filter isExtraction (concat (map snd rs))) \<le> 1 \<and>
     length (filter isStyleProcessing (concat (map snd rs))) \<le> 1 \<and>
     (\<forall>i < length calls. 0 < i \<or> sc \<in> shadyRenderSet st \<longrightarrow>
        snd (rs ! i) = laterEvents sc (calls ! i)) \<and>
     (calls \<noteq> [] \<and> sc \<notin> shadyRenderSet st \<and> first = None \<longrightarrow>
        (\<exists>ds sink. onlyDom ds \<and>
           snd (hd rs) = ExtractBegin sc # ds @
             [ExtractEnd sc, PrepareTemplateStyles sink sc] @ laterEvents sc (hd calls))) \<and>
     (calls \<noteq> [] \<and> sc \<notin> shadyRenderSet st \<and> first \<noteq> None \<longrightarrow>
        fst (hd rs) = first \<and>
        (\<exists>ds tail. onlyDom ds \<and> snd (hd rs) = ExtractBegin sc # ds @ tail \<and>
           (tail = [] \<or> (\<exists>sink. tail = [ExtractEnd sc, PrepareTemplateStyles sink sc])))) \<and>
     (\<forall>i < length calls.
        (StyleElement (callHost (calls ! i)) \<in> set (snd (rs ! i))) =
        (0 < i \<or> sc \<in> shadyRenderSet st \<or> first = None)) \<and>
     (\<forall>i < length calls. fst (rs ! i) = None \<longrightarrow>
        (\<exists>evs. snd (rs ! i) = evs @
           [StyleElement (callHost (calls ! i)),
            BaseRender (callResult (calls ! i)) (DocumentFragment (Some (callHost (calls ! i))))
              (Some sc)]))"
proof -
  let ?rs = "fst (renders l sc calls st)"
  let ?first = "firstOutcome l (callPolyfill (hd calls)) (callResult (hd calls)) sc st"
  have later_in: "\<And>c. StyleElement (callHost c) \<in> set (laterEvents sc c)"
    by (simp add: laterEvents_def)
  have later_ret: "\<And>c. styleElement (callPolyfill c) (callHost c) = None \<Longrightarrow>
      laterEvents sc c = [] @ [StyleElement (callHost c),
            BaseRender (callResult c) (DocumentFragment (Some (callHost c))) (Some sc)]"
    by (simp add: laterEvents_def)
  have later_ex: "\<And>c. filter isExtraction (laterEvents sc c) = []"
    by (simp add: laterEvents_def split: option.splits)
  have later_sp: "\<And>c. filter isStyleProcessing (laterEvents sc c) = []"
    by (simp add: laterEvents_def split: option.splits)
  have len: "length ?rs = length calls" by (rule renders_length)
  show ?thesis
  proof (cases "sc \<in> shadyRenderSet st")
    case True
    note g = renders_gate_closed [OF assms True, of l calls]
    from g have ev: "map snd ?rs = map (laterEvents sc) calls" by simp
    have nth: "\<And>i. i < length calls \<Longrightarrow> snd (?rs ! i) = laterEvents sc (calls ! i)"
    proof -
      fix i assume i: "i < length calls"
      then have "snd (?rs ! i) = map snd ?rs ! i" using len by simp
      with ev i show "snd (?rs ! i) = laterEvents sc (calls ! i)" by simp
    qed
    have c7: "\<And>i. i < length calls \<Longrightarrow> fst (?rs ! i) = None \<Longrightarrow>
        (\<exists>evs. snd (?rs ! i) = evs @
           [StyleElement (callHost (calls ! i)),
            BaseRender (callResult (calls ! i)) (DocumentFragment (Some (callHost (calls ! i))))
              (Some sc)])"
    proof -
      fix i assume i: "i < length calls" and n: "fst (?rs ! i) = None"
      from g i n have "styleElement (callPolyfill (calls ! i)) (callHost (calls ! i)) = None" by simp
      from later_ret [OF this] nth [OF i] show "\<exists>evs. snd (?rs ! i) = evs @
           [StyleElement (callHost (calls ! i)),
            BaseRender (callResult (calls ! i)) (DocumentFragment (Some (callHost (calls ! i))))
              (Some sc)]" by metis
    qed
    show ?thesis
      unfolding Let_def
      using True len nth c7 later_in ev
      by (simp add: laterEvents_filter)
  next
    case False
    show ?thesis
    proof (cases calls)
      case Nil
      then show ?thesis by simp
    next
      case (Cons c rest)
      let ?h = "callHost c" and ?r = "callResult c" and ?css = "callPolyfill c"
      let ?c = "DocumentFragment (Some ?h)"
      have hd: "hd calls = c" using Cons by simp
      obtain e st1 where r1: "render l (Some ?css) ?r ?c sc st = (e, st1)"
        by (cases "render l (Some ?css) ?r ?c sc st")
      obtain e1 st0 where fr: "firstRender l (Some ?css) ?r sc st = (e1, st0)"
        by (cases "firstRender l (Some ?css) ?r sc st")
      have host: "hostForNode ?c = Some ?h" by simp
      have e1: "e1 = ?first"
        using firstRender_outcome [of l ?css ?r sc st] fr hd by simp
      note rf = render_first [OF assms host False fr]
      have n1: "needsStyleFixup st1"
        using render_needsStyleFixup [of l "Some ?css" ?r ?c sc st] r1 assms by simp
      have g1: "sc \<in> shadyRenderSet st1"
        using render_shadyRenderSet [OF assms host, of l "Some ?css" ?r sc] r1 by simp
      let ?st2 = "foldl (applyOperation l) st1 (callAfter c)"
      have "needsStyleFixup ?st2" "sc \<in> shadyRenderSet ?st2"
        using g1 n1 foldl_applyOperation_constants [of l st1 "callAfter c"] by simp_all
      note g = renders_gate_closed [OF this, of l rest]
      let ?tl = "fst (renders l sc rest ?st2)"
      have tlen: "length ?tl = length rest" by (rule renders_length)
      from g have tev: "map snd ?tl = map (laterEvents sc) rest" by simp
      have tnth: "\<And>j. j < length rest \<Longrightarrow> snd (?tl ! j) = laterEvents sc (rest ! j)"
      proof -
        fix j assume j: "j < length rest"
        then have "snd (?tl ! j) = map snd ?tl ! j" using tlen by simp
        with tev j show "snd (?tl ! j) = laterEvents sc (rest ! j)" by simp
      qed
      let ?evs = "eventsSince st st1"
      have rs: "?rs = (e, ?evs) # ?tl"
        using Cons r1 by (simp add: split_beta)
      have shape: "(e1 = None \<longrightarrow>
            (\<exists>ds sink. onlyDom ds \<and>
               ?evs = ExtractBegin sc # ds @ [ExtractEnd sc, PrepareTemplateStyles sink sc] @ laterEvents sc c) \<and>
            (e = None \<longrightarrow> styleElement ?css ?h = None)) \<and>
         (e1 \<noteq> None \<longrightarrow> e = e1 \<and>
            (\<exists>ds tail. onlyDom ds \<and> ?evs = ExtractBegin sc # ds @ tail \<and>
               (tail = [] \<or> (\<exists>sink. tail = [ExtractEnd sc, PrepareTemplateStyles sink sc]))))"
      proof (cases e1)
        case None
        from firstRender_shape(3) [OF fr] None
        obtain ds sink where ds: "onlyDom ds"
          and lg: "log st0 = log st @ ExtractBegin sc # ds @ [ExtractEnd sc, PrepareTemplateStyles sink sc]"
          by auto
        have "?evs = ExtractBegin sc # ds @ [ExtractEnd sc, PrepareTemplateStyles sink sc] @ laterEvents sc c"
          using rf r1 None lg
          by (auto simp: eventsSince_def laterEvents_def split: option.splits)
        moreover have "e = None \<longrightarrow> styleElement ?css ?h = None"
          using rf r1 None by (auto split: option.splits)
        ultimately show ?thesis using None ds by blast
      next
        case (Some err)
        from firstRender_shape_polyfill [OF fr [unfolded Some]]
        obtain ds tail where ds: "onlyDom ds"
          and lg: "log st0 = log st @ ExtractBegin sc # ds @ tail"
          and tl: "tail = [] \<or> (\<exists>sink. tail = [ExtractEnd sc, PrepareTemplateStyles sink sc])"
          by blast
        have "e = e1" "st1 = st0" using rf r1 Some by simp_all
        then have "?evs = ExtractBegin sc # ds @ tail" using lg by (simp add: eventsSince_def)
        with \<open>e = e1\<close> Some ds tl show ?thesis by blast
      qed
      have c1: "length (filter isExtraction ?evs) \<le> 1"
        using shape onlyDom_filter(1) later_ex [of c] by (cases e1) auto
      have c2: "length (filter isStyleProcessing ?evs) \<le> 1"
        using shape onlyDom_filter(2) later_sp [of c] by (cases e1) auto
      have cnt1: "length (filter isExtraction (concat (map snd ?rs))) \<le> 1"
        unfolding rs using c1 tev by (simp add: laterEvents_filter)
      have cnt2: "length (filter isStyleProcessing (concat (map snd ?rs))) \<le> 1"
        unfolding rs using c2 tev by (simp add: laterEvents_filter)
      have c3: "\<And>i. i < length calls \<Longrightarrow> 0 < i \<Longrightarrow> snd (?rs ! i) = laterEvents sc (calls ! i)"
        unfolding rs using Cons tnth by (auto simp: nth_Cons')
      have c4: "?first = None \<Longrightarrow> \<exists>ds sink. onlyDom ds \<and>
           snd (hd ?rs) = ExtractBegin sc # ds @
             [ExtractEnd sc, PrepareTemplateStyles sink sc] @ laterEvents sc (hd calls)"
        unfolding rs using shape e1 hd by simp
      have c5: "?first \<noteq> None \<Longrightarrow> fst (hd ?rs) = ?first \<and>
        (\<exists>ds tail. onlyDom ds \<and> snd (hd ?rs) = ExtractBegin sc # ds @ tail \<and>
           (tail = [] \<or> (\<exists>sink. tail = [ExtractEnd sc, PrepareTemplateStyles sink sc])))"
        unfolding rs using shape e1 hd by simp
      have se0: "(StyleElement ?h \<in> set ?evs) = (?first = None)"
      proof (cases e1)
        case None
        with shape later_in [of c] e1 show ?thesis by auto
      next
        case (Some err)
        with shape obtain ds tail where "onlyDom ds" "?evs = ExtractBegin sc # ds @ tail"
           "tail = [] \<or> (\<exists>sink. tail = [ExtractEnd sc, PrepareTemplateStyles sink sc])" by auto
        with onlyDom_filter(3) [of ds ?h] Some e1 show ?thesis by auto
      qed
      have c6: "\<And>i. i < length calls \<Longrightarrow>
        (StyleElement (callHost (calls ! i)) \<in> set (snd (?rs ! i))) = (0 < i \<or> ?first = None)"
      proof -
        fix i assume i: "i < length calls"
        show "(StyleElement (callHost (calls ! i)) \<in> set (snd (?rs ! i))) = (0 < i \<or> ?first = None)"
        proof (cases i)
          case 0
          with se0 Cons rs show ?thesis by simp
        next
          case (Suc j)
          with c3 [OF i] later_in [of "calls ! i"] show ?thesis by simp
        qed
      qed
      have c7: "\<And>i. i < length calls \<Longrightarrow> fst (?rs ! i) = None \<Longrightarrow>
        (\<exists>evs. snd (?rs ! i) = evs @
           [StyleElement (callHost (calls ! i)),
            BaseRender (callResult (calls ! i)) (DocumentFragment (Some (callHost (calls ! i))))
              (Some sc)])"
      proof -
        fix i assume i: "i < length calls" and n: "fst (?rs ! i) = None"
        show "\<exists>evs. snd (?rs ! i) = evs @
           [StyleElement (callHost (calls ! i)),
            BaseRender (callResult (calls ! i)) (DocumentFragment (Some (callHost (calls ! i))))
              (Some sc)]"
        proof (cases i)
          case 0
          with n rs have en: "e = None" by simp
          with shape have e1n: "e1 = None" by (cases e1) auto
          with shape en obtain ds sink where
            ev: "?evs = ExtractBegin sc # ds @ [ExtractEnd sc, PrepareTemplateStyles sink sc] @ laterEvents sc c"
            and se: "styleElement ?css ?h = None" by auto
          from later_ret [OF se] ev
          have "?evs = (ExtractBegin sc # ds @ [ExtractEnd sc, PrepareTemplateStyles sink sc]) @
             [StyleElement ?h, BaseRender ?r ?c (Some sc)]" by simp
          with 0 Cons rs show ?thesis by (simp del: append.simps append_Cons)
        next
          case (Suc j)
          with i Cons have j: "j < length rest" by simp
          from n Suc rs have "fst (?tl ! j) = None" by simp
          with g j have "styleElement (callPolyfill (rest ! j)) (callHost (rest ! j)) = None" by simp
          from later_ret [OF this] tnth [OF j] Suc Cons rs show ?thesis by simp
        qed
      qed
      show ?thesis
        unfolding Let_def
        using len cnt1 cnt2 c3 c4 c5 c6 c7 False Cons
        by (intro conjI allI impI) auto
    qed
  qed
qed

theorem render_sequence_extracts_once_witness:
  "needsStyleFixup (loadModule (Some (examplePolyfill False False)) emptyState) \<and>
   ''my-elem'' \<notin> shadyRenderSet (loadModule (Some (examplePolyfill False False)) emptyState) \<and>
   firstOutcome exampleLit (examplePolyfill False False) (TemplateResult ''html'' 0 [VString ''a''])
     ''my-elem'' (loadModule (Some (examplePolyfill False False)) emptyState) = None \<and>
   (let rs = fst (renders exampleLit ''my-elem''
                [\<lparr>callPolyfill = examplePolyfill False False,
                   callResult = TemplateResult ''html'' 0 [VString ''a''], callHost = 7,
                   callAfter = [Compile (Some (examplePolyfill False False)) ''my-elem''
                                  (TemplateResult ''html'' 4 [])]\<rparr>,
                 \<lparr>callPolyfill = examplePolyfill False False,
                   callResult = TemplateResult ''html'' 0 [VString ''b''], callHost = 7,
                   callAfter = []\<rparr>]
                (loadModule (Some (examplePolyfill False False)) emptyState))
    in (\<exists>ds sink. onlyDom ds \<and>
           snd (hd rs) = ExtractBegin ''my-elem'' # ds @
             [ExtractEnd ''my-elem'', PrepareTemplateStyles sink ''my-elem'', StyleElement 7,
              BaseRender (TemplateResult ''html'' 0 [VString ''a''])
                (DocumentFragment (Some 7)) (Some ''my-elem'')]) \<and>
       snd (rs ! 1) = [StyleElement 7, BaseRender (TemplateResult ''html'' 0 [VString ''b''])
                (DocumentFragment (Some 7)) (Some ''my-elem'')] \<and>
       length (filter isExtraction (concat (map snd rs))) \<le> 1 \<and>
       length (filter isStyleProcessing (concat (map snd rs))) \<le> 1 \<and>
       StyleElement 7 \<in> set (snd (rs ! 0)) \<and>
       StyleElement 7 \<in> set (snd (rs ! 1))) \<and>
   firstOutcome exampleLit (examplePolyfill False False) (TemplateResult ''html'' 0 [VNull])
     ''my-elem'' (loadModule (Some (examplePolyfill False False)) emptyState) = Some TypeError \<and>
   (let rs = fst (renders exampleLit ''my-elem''
                [\<lparr>callPolyfill = examplePolyfill False False,
                   callResult = TemplateResult ''html'' 0 [VNull], callHost = 7, callAfter = []\<rparr>,
                 \<lparr>callPolyfill = examplePolyfill False False,
                   callResult = TemplateResult ''html'' 0 [VString ''b''], callHost = 7,
                   callAfter = []\<rparr>]
                (loadModule (Some (examplePolyfill False False)) emptyState))
    in fst (hd rs) = Some TypeError \<and>
       StyleElement 7 \<notin> set (snd (rs ! 0)) \<and>
       snd (rs ! 1) = [StyleElement 7, BaseRender (TemplateResult ''html'' 0 [VString ''b''])
                (DocumentFragment (Some 7)) (Some ''my-elem'')]) \<and>
   firstOutcome exampleLit (examplePolyfill False False)
     (TemplateResult ''html'' 0 [VResult (TemplateResult ''html'' 0 [VString ''x''])])
     ''my-elem'' (loadModule (Some (examplePolyfill False False)) emptyState) = Some TypeError \<and>
   (let rs = fst (renders exampleLit ''my-elem''
                [\<lparr>callPolyfill = examplePolyfill False False,
                   callResult = TemplateResult ''html'' 0
                     [VResult (TemplateResult ''html'' 0 [VString ''x''])],
                   callHost = 7, callAfter = []\<rparr>]
                (loadModule (Some (examplePolyfill False False)) emptyState))
    in fst (hd rs) = Some TypeError \<and> StyleElement 7 \<notin> set (snd (rs ! 0))) \<and>
   (let rs = fst (renders (exampleLit\<lparr>baseRender := (\<lambda>r c f st. Some TypeError)\<rparr>) ''my-elem''
                [\<lparr>callPolyfill = examplePolyfill False False,
                   callResult = TemplateResult ''html'' 0 [VString ''a''], callHost = 7,
                   callAfter = []\<rparr>,
                 \<lparr>callPolyfill = examplePolyfill False False,
                   callResult = TemplateResult ''html'' 0 [VString ''b''], callHost = 7,
                   callAfter = []\<rparr>]
                (loadModule (Some (examplePolyfill False False)) emptyState))
    in map fst rs = [Some TypeError, Some TypeError] \<and>
       StyleElement 7 \<in> set (snd (rs ! 0)) \<and>
       snd (rs ! 1) = [StyleElement 7, BaseRender (TemplateResult ''html'' 0 [VString ''b''])
                (DocumentFragment (Some 7)) (Some ''my-elem'')])"
proof -
  let ?P = "examplePolyfill False False"
  let ?S = "loadModule (Some ?P) emptyState"
  let ?ra = "TemplateResult ''html'' 0 [VString ''a'']" and ?rb = "TemplateResult ''html'' 0 [VString ''b'']"
  let ?rn = "TemplateResult ''html'' 0 [VNull]"
  let ?ca = "\<lparr>callPolyfill = ?P, callResult = ?ra, callHost = 7,
               callAfter = [Compile (Some ?P) ''my-elem'' (TemplateResult ''html'' 4 [])]\<rparr>"
  let ?cb = "\<lparr>callPolyfill = ?P, callResult = ?rb, callHost = 7, callAfter = []\<rparr>"
  let ?cn = "\<lparr>callPolyfill = ?P, callResult = ?rn, callHost = 7, callAfter = []\<rparr>"
  let ?calls = "[?ca, ?cb]" and ?calls' = "[?cn, ?cb]"
  let ?rs = "fst (renders exampleLit ''my-elem'' ?calls ?S)"
  let ?rs' = "fst (renders exampleLit ''my-elem'' ?calls' ?S)"
  have h1: "needsStyleFixup ?S" by (simp add: example_defs)
  have h2: "''my-elem'' \<notin> shadyRenderSet ?S" by (simp add: example_defs)
  have h3: "firstOutcome exampleLit ?P ?ra ''my-elem'' ?S = None"
    by (simp add: firstOutcome_def example_defs)
  have h4: "firstOutcome exampleLit ?P ?rn ''my-elem'' ?S = Some TypeError"
    by (simp add: firstOutcome_def example_defs)
  have la: "laterEvents ''my-elem'' ?ca = [StyleElement 7, BaseRender ?ra (DocumentFragment (Some 7)) (Some ''my-elem'')]"
    by (simp add: laterEvents_def examplePolyfill_def)
  have lb: "laterEvents ''my-elem'' ?cb = [StyleElement 7, BaseRender ?rb (DocumentFragment (Some 7)) (Some ''my-elem'')]"
    by (simp add: laterEvents_def examplePolyfill_def)
  note t = render_sequence_extracts_once [OF h1, of exampleLit "''my-elem''" ?calls, unfolded Let_def]
  note t2 = t [THEN conjunct2, THEN conjunct1]
  note t3 = t [THEN conjunct2, THEN conjunct2, THEN conjunct1]
  note t4 = t [THEN conjunct2, THEN conjunct2, THEN conjunct2, THEN conjunct1]
  note t5 = t [THEN conjunct2, THEN conjunct2, THEN conjunct2, THEN conjunct2, THEN conjunct1]
  note t7 = t [THEN conjunct2, THEN conjunct2, THEN conjunct2, THEN conjunct2, THEN conjunct2,
               THEN conjunct2, THEN conjunct1]
  from t4 [THEN spec, of 1] have "snd (?rs ! 1) = laterEvents ''my-elem'' (?calls ! 1)" by simp
  then have c1: "snd (?rs ! 1) = [StyleElement 7, BaseRender ?rb (DocumentFragment (Some 7)) (Some ''my-elem'')]"
    using lb by simp
  have "?calls \<noteq> [] \<and> ''my-elem'' \<notin> shadyRenderSet ?S \<and>
        firstOutcome exampleLit (callPolyfill (hd ?calls)) (callResult (hd ?calls)) ''my-elem'' ?S = None"
    using h2 h3 by simp
  with t5 have "\<exists>ds sink. onlyDom ds \<and> snd (hd ?rs) = ExtractBegin ''my-elem'' # ds @
             [ExtractEnd ''my-elem'', PrepareTemplateStyles sink ''my-elem''] @
             laterEvents ''my-elem'' (hd ?calls)" by (rule mp)
  then have c2: "\<exists>ds sink. onlyDom ds \<and> snd (hd ?rs) = ExtractBegin ''my-elem'' # ds @
             [ExtractEnd ''my-elem'', PrepareTemplateStyles sink ''my-elem'', StyleElement 7,
              BaseRender ?ra (DocumentFragment (Some 7)) (Some ''my-elem'')]"
    using la by simp
  from t7 [THEN spec, of 0] h3 have c3: "StyleElement 7 \<in> set (snd (?rs ! 0))" by simp
  from t7 [THEN spec, of 1] have c4: "StyleElement 7 \<in> set (snd (?rs ! 1))" by simp
  note u = render_sequence_extracts_once [OF h1, of exampleLit "''my-elem''" ?calls', unfolded Let_def]
  note u4 = u [THEN conjunct2, THEN conjunct2, THEN conjunct2, THEN conjunct1]
  note u6 = u [THEN conjunct2, THEN conjunct2, THEN conjunct2, THEN conjunct2, THEN conjunct2,
               THEN conjunct1]
  note u7 = u [THEN conjunct2, THEN conjunct2, THEN conjunct2, THEN conjunct2, THEN conjunct2,
               THEN conjunct2, THEN conjunct1]
  have "?calls' \<noteq> [] \<and> ''my-elem'' \<notin> shadyRenderSet ?S \<and>
        firstOutcome exampleLit (callPolyfill (hd ?calls')) (callResult (hd ?calls')) ''my-elem'' ?S \<noteq> None"
    using h2 h4 by simp
  with u6 have "fst (hd ?rs') =
        firstOutcome exampleLit (callPolyfill (hd ?calls')) (callResult (hd ?calls')) ''my-elem'' ?S \<and>
        (\<exists>ds tail. onlyDom ds \<and> snd (hd ?rs') = ExtractBegin ''my-elem'' # ds @ tail \<and>
           (tail = [] \<or> (\<exists>sink. tail = [ExtractEnd ''my-elem'', PrepareTemplateStyles sink ''my-elem''])))"
    by (rule mp)
  then have d1: "fst (hd ?rs') = Some TypeError" using h4 by simp
  from u7 [THEN spec, of 0] h2 h4 have d2: "StyleElement 7 \<notin> set (snd (?rs' ! 0))" by simp
  from u4 [THEN spec, of 1] have "snd (?rs' ! 1) = laterEvents ''my-elem'' (?calls' ! 1)" by simp
  then have d3: "snd (?rs' ! 1) = [StyleElement 7, BaseRender ?rb (DocumentFragment (Some 7)) (Some ''my-elem'')]"
    using lb by simp
  let ?rx = "TemplateResult ''html'' 0 [VResult (TemplateResult ''html'' 0 [VString ''x''])]"
  let ?cx = "\<lparr>callPolyfill = ?P, callResult = ?rx, callHost = 7, callAfter = []\<rparr>"
  let ?rsx = "fst (renders exampleLit ''my-elem'' [?cx] ?S)"
  have h5: "firstOutcome exampleLit ?P ?rx ''my-elem'' ?S = Some TypeError"
    by (simp add: firstOutcome_def example_defs)
  note x = render_sequence_extracts_once [OF h1, of exampleLit "''my-elem''" "[?cx]", unfolded Let_def]
  note x6 = x [THEN conjunct2, THEN conjunct2, THEN conjunct2, THEN conjunct2, THEN conjunct2,
               THEN conjunct1]
  note x7 = x [THEN conjunct2, THEN conjunct2, THEN conjunct2, THEN conjunct2, THEN conjunct2,
               THEN conjunct2, THEN conjunct1]
  have "[?cx] \<noteq> [] \<and> ''my-elem'' \<notin> shadyRenderSet ?S \<and>
        firstOutcome exampleLit (callPolyfill (hd [?cx])) (callResult (hd [?cx])) ''my-elem'' ?S \<noteq> None"
    using h2 h5 by simp
  with x6 have "fst (hd ?rsx) =
        firstOutcome exampleLit (callPolyfill (hd [?cx])) (callResult (hd [?cx])) ''my-elem'' ?S \<and>
        (\<exists>ds tail. onlyDom ds \<and> snd (hd ?rsx) = ExtractBegin ''my-elem'' # ds @ tail \<and>
           (tail = [] \<or> (\<exists>sink. tail = [ExtractEnd ''my-elem'', PrepareTemplateStyles sink ''my-elem''])))"
    by (rule mp)
  then have e1: "fst (hd ?rsx) = Some TypeError" using h5 by simp
  from x7 [THEN spec, of 0] h2 h5 have e2: "StyleElement 7 \<notin> set (snd (?rsx ! 0))" by simp
  let ?L = "exampleLit\<lparr>baseRender := (\<lambda>r c f st. Some TypeError)\<rparr>"
  let ?ca' = "\<lparr>callPolyfill = ?P, callResult = ?ra, callHost = 7, callAfter = []\<rparr>"
  let ?callsb = "[?ca', ?cb]"
  let ?rsb = "fst (renders ?L ''my-elem'' ?callsb ?S)"
  have h6: "firstOutcome ?L ?P ?ra ''my-elem'' ?S = None"
    by (simp add: firstOutcome_def example_defs)
  have f1: "map fst ?rsb = [Some TypeError, Some TypeError]"
    by (simp add: example_defs)
  note y = render_sequence_extracts_once [OF h1, of ?L "''my-elem''" ?callsb, unfolded Let_def]
  note y4 = y [THEN conjunct2, THEN conjunct2, THEN conjunct2, THEN conjunct1]
  note y7 = y [THEN conjunct2, THEN conjunct2, THEN conjunct2, THEN conjunct2, THEN conjunct2,
               THEN conjunct2, THEN conjunct1]
  from y7 [THEN spec, of 0] h6 have f2: "StyleElement 7 \<in> set (snd (?rsb ! 0))" by simp
  from y4 [THEN spec, of 1] have "snd (?rsb ! 1) = laterEvents ''my-elem'' (?callsb ! 1)" by simp
  then have f3: "snd (?rsb ! 1) = [StyleElement 7, BaseRender ?rb (DocumentFragment (Some 7)) (Some ''my-elem'')]"
    using lb by simp
  from h1 h2 h3 c2 c1 t2 t3 c3 c4 h4 d1 d2 d3 h5 e1 e2 f1 f2 f3
  show ?thesis unfolding Let_def by (intro conjI)
qed

subsection \<open>C9: the factory returns the same template\<close>

text \<open>
  Claim C9: once the factory of a scope has returned a template for a result, it returns
  that same template (the same address, with the state unchanged, so nothing is compiled
  again) for every result of the same type and the same strings array, whatever has been
  compiled and whichever templates have been changed in place in between. A change made
  in place is therefore what every later call sees.
\<close>

theorem factory_returns_same_template:
  assumes "type r2 = type r1" and "strings r2 = strings r1"
  shows "let (a, st1) = shadyTemplateFactory l w1 sc r1 st;
             st2 = foldl (applyOperation l) st1 ops
         in shadyTemplateFactory l w2 sc r2 st2 = (a, st2)"
proof -
  obtain a st1 where f1: "shadyTemplateFactory l w1 sc r1 st = (a, st1)"
    by (cases "shadyTemplateFactory l w1 sc r1 st")
  from factory_slot [OF f1] obtain m where
    m: "templateCaches st1 (type r1 @ ''--'' @ sc) = Some m" "m (strings r1) = Some a" by blast
  have "sameSlots st1 (foldl (applyOperation l) st1 ops)" by (rule foldl_applyOperation_sameSlots)
  with m obtain m' where
    "templateCaches (foldl (applyOperation l) st1 ops) (type r1 @ ''--'' @ sc) = Some m'"
    "m' (strings r1) = Some a"
    unfolding sameSlots_def by blast
  then have "shadyTemplateFactory l w2 sc r2 (foldl (applyOperation l) st1 ops)
           = (a, foldl (applyOperation l) st1 ops)"
    using assms by (intro factory_hit [where m = m']) simp_all
  with f1 show ?thesis by simp
qed

theorem factory_returns_same_template_witness:
  "type (TemplateResult ''html'' 0 [VString ''b'']) = type (TemplateResult ''html'' 0 [VString ''a'']) \<and>
   strings (TemplateResult ''html'' 0 [VString ''b'']) = strings (TemplateResult ''html'' 0 [VString ''a'']) \<and>
   (let (a, st1) = shadyTemplateFactory exampleLit None ''x''
                     (TemplateResult ''html'' 0 [VString ''a'']) emptyState;
        st2 = foldl (applyOperation exampleLit) st1
                [Mutate 0 (\<lambda>t. insertStyleInTemplate t (Element ''style'' [])),
                 Compile None ''x'' (TemplateResult ''html'' 4 [])]
    in a = 0 \<and>
       shadyTemplateFactory exampleLit None ''x'' (TemplateResult ''html'' 0 [VString ''b'']) st2
         = (a, st2) \<and>
       map index (parts (heap st2 0)) = [4])"
proof -
  let ?r1 = "TemplateResult ''html'' 0 [VString ''a'']" and ?r2 = "TemplateResult ''html'' 0 [VString ''b'']"
  let ?ops = "[Mutate 0 (\<lambda>t. insertStyleInTemplate t (Element ''style'' [])),
                 Compile None ''x'' (TemplateResult ''html'' 4 [])]"
  have h1: "type ?r2 = type ?r1" by simp
  have h2: "strings ?r2 = strings ?r1" by simp
  note t = factory_returns_same_template [OF h1 h2, of exampleLit None "''x''" emptyState ?ops None]
  obtain a st1 where f: "shadyTemplateFactory exampleLit None ''x'' ?r1 emptyState = (a, st1)"
    by (cases "shadyTemplateFactory exampleLit None ''x'' ?r1 emptyState")
  have a: "a = 0" using f by (auto simp: example_defs)
  have p: "map index (parts (heap (foldl (applyOperation exampleLit) st1 ?ops) 0)) = [4]"
    using f by (auto simp: example_defs)
  from t f a p h1 h2 show ?thesis by (simp add: Let_def)
qed

subsection \<open>C10: the scope is marked before the extraction\<close>

text \<open>
  Claim C10: \<open>render\<close> adds the scope name to \<open>shadyRenderSet\<close> before the extraction.
  When, in the first call for a scope, the extraction or \<open>prepareTemplateStyles\<close> raises
  (lines 132 to 142 raise), the call raises the same, the scope is in the set afterwards,
  the call has entered the extraction and has not called \<open>styleElement\<close>, and every later
  sequence of calls for the scope, whatever is compiled or changed in between, does
  neither extraction nor style processing: each call logs \<open>styleElement\<close> and, unless that
  raises, the base render, and nothing else.
\<close>

theorem gate_marked_before_extraction:
  assumes "needsStyleFixup st" and "hostForNode c = Some h" and "sc \<notin> shadyRenderSet st"
      and "fst (firstRender l w r sc st) \<noteq> None"
  shows "let st1 = snd (render l w r c sc st) in
         fst (render l w r c sc st) = fst (firstRender l w r sc st) \<and>
         sc \<in> shadyRenderSet st1 \<and> needsStyleFixup st1 \<and>
         (\<exists>evs. log st1 = log st @ ExtractBegin sc # evs \<and> StyleElement h \<notin> set evs) \<and>
         (\<forall>calls. map snd (fst (renders l sc calls st1)) = map (laterEvents sc) calls)"
proof -
  obtain err st0 where fr: "firstRender l w r sc st = (Some err, st0)"
    using assms(4) by (cases "firstRender l w r sc st") auto
  from render_first [OF assms(1,2,3) fr]
  have r: "render l w r c sc st = (Some err, st0)" by simp
  from firstRender_shape [OF fr]
  obtain ds tail where g: "sc \<in> shadyRenderSet st0" and n: "needsStyleFixup st0"
    and ds: "onlyDom ds" and lg: "log st0 = log st @ ExtractBegin sc # ds @ tail"
    and tl: "tail = [] \<or> tail = [ExtractEnd sc] \<or>
                (\<exists>sink. tail = [ExtractEnd sc, PrepareTemplateStyles sink sc])"
    using assms(1) by auto
  have "StyleElement h \<notin> set (ds @ tail)" using tl onlyDom_filter(3) [OF ds] by auto
  with lg have "\<exists>evs. log st0 = log st @ ExtractBegin sc # evs \<and> StyleElement h \<notin> set evs" by blast
  moreover have "\<forall>calls. map snd (fst (renders l sc calls st0)) = map (laterEvents sc) calls"
    using renders_gate_closed [OF n g] by simp
  ultimately show ?thesis using g n r fr by simp
qed

theorem gate_marked_before_extraction_witness:
  "needsStyleFixup (loadModule (Some (examplePolyfill False False)) emptyState) \<and>
   hostForNode (DocumentFragment (Some 7)) = Some 7 \<and>
   ''my-elem'' \<notin> shadyRenderSet (loadModule (Some (examplePolyfill False False)) emptyState) \<and>
   fst (firstRender exampleLit (Some (examplePolyfill False False)) (TemplateResult ''html'' 0 [VNull])
          ''my-elem'' (loadModule (Some (examplePolyfill False False)) emptyState)) = Some TypeError \<and>
   fst (render exampleLit (Some (examplePolyfill False False)) (TemplateResult ''html'' 0 [VNull])
          (DocumentFragment (Some 7)) ''my-elem''
          (loadModule (Some (examplePolyfill False False)) emptyState)) = Some TypeError \<and>
   (let st1 = snd (render exampleLit (Some (examplePolyfill False False))
                    (TemplateResult ''html'' 0 [VNull]) (DocumentFragment (Some 7)) ''my-elem''
                    (loadModule (Some (examplePolyfill False False)) emptyState))
    in ''my-elem'' \<in> shadyRenderSet st1 \<and>
       map snd (fst (renders exampleLit ''my-elem''
              [\<lparr>callPolyfill = examplePolyfill False False,
                 callResult = TemplateResult ''html'' 0 [VString ''b''], callHost = 7,
                 callAfter = []\<rparr>] st1))
         = [[StyleElement 7, BaseRender (TemplateResult ''html'' 0 [VString ''b''])
                (DocumentFragment (Some 7)) (Some ''my-elem'')]])"
proof -
  let ?P = "examplePolyfill False False"
  let ?S = "loadModule (Some ?P) emptyState"
  let ?R = "TemplateResult ''html'' 0 [VNull]" and ?C = "DocumentFragment (Some 7)"
  let ?cb = "\<lparr>callPolyfill = ?P, callResult = TemplateResult ''html'' 0 [VString ''b''], callHost = 7,
                 callAfter = []\<rparr>"
  have h1: "needsStyleFixup ?S" by (simp add: example_defs)
  have h2: "hostForNode ?C = Some 7" by simp
  have h3: "''my-elem'' \<notin> shadyRenderSet ?S" by (simp add: example_defs)
  have h4: "fst (firstRender exampleLit (Some ?P) ?R ''my-elem'' ?S) = Some TypeError"
    by (simp add: example_defs)
  then have h4': "fst (firstRender exampleLit (Some ?P) ?R ''my-elem'' ?S) \<noteq> None" by simp
  note t = gate_marked_before_extraction [OF h1 h2 h3 h4', unfolded Let_def]
  from t h4 have c0: "fst (render exampleLit (Some ?P) ?R ?C ''my-elem'' ?S) = Some TypeError"
    by simp
  from t have c1: "''my-elem'' \<in> shadyRenderSet (snd (render exampleLit (Some ?P) ?R ?C ''my-elem'' ?S))"
    by blast
  from t have "map snd (fst (renders exampleLit ''my-elem'' [?cb]
              (snd (render exampleLit (Some ?P) ?R ?C ''my-elem'' ?S))))
         = map (laterEvents ''my-elem'') [?cb]"
    by blast
  then have c2: "map snd (fst (renders exampleLit ''my-elem'' [?cb]
              (snd (render exampleLit (Some ?P) ?R ?C ''my-elem'' ?S))))
         = [[StyleElement 7, BaseRender (TemplateResult ''html'' 0 [VString ''b''])
                (DocumentFragment (Some 7)) (Some ''my-elem'')]]"
    by (simp add: laterEvents_def examplePolyfill_def)
  from h1 h2 h3 h4 c0 c1 c2 show ?thesis unfolding Let_def by blast
qed

end
